(* ===== verification/DLL_Prelude.thy ===== *)
theory DLL_Prelude
  imports Main "HOL-Library.Word" "HOL-Library.Monad_Syntax"
begin

text \<open>
  Shared vocabulary of the development: the machine types of the C++ sources, the
  loop combinator that threads a possibly failing body through a list of indices,
  and the conversion between a word and the list of its bits, most significant bit
  first. Nothing here models a line of the repository; the component theories
  build on it.

  \<^item> \<open>for_each xs body s\<close> runs \<open>body x\<close> for every \<open>x\<close> of \<open>xs\<close> in order, starting
    from the state \<open>s\<close>, and stops with \<open>None\<close> as soon as one iteration fails. It is
    the shape of every \<^verbatim>\<open>for\<close> loop of the sources whose bounds are known when the
    loop starts.
  \<^item> \<open>bits_msb w\<close> lists the bits of \<open>w\<close> from the top bit down; \<open>word_msb bs\<close> is
    the word whose bits, from the top of the list down, are \<open>bs\<close>.
  \<^item> the collection \<open>dll_safe\<close> gathers the lemmas that say an operation returns
    \<open>Some\<close>, and \<open>dll_len\<close> the lemmas about lengths of produced lists.
\<close>

unbundle bit_operations_syntax

named_theorems dll_safe "operations that never leave their range"
named_theorems dll_len "lengths of the produced sequences"

type_synonym byte = "8 word"
type_synonym uint16_t = "16 word"
type_synonym uint32_t = "32 word"
type_synonym size_t = "64 word"

section \<open>Index ranges\<close>

lemma upt_append_upt: "i \<le> j \<Longrightarrow> j \<le> k \<Longrightarrow> [i..<j] @ [j..<k] = [i..<k]"
  by (metis le_Suc_ex upt_add_eq_append)

section \<open>Widening and narrowing\<close>

lemma ucast_widen_narrow:
  "LENGTH('a) \<le> LENGTH('b) \<Longrightarrow> ucast (ucast (w :: 'a::len word) :: 'b::len word) = w"
  by (rule bit_word_eqI) (auto simp: bit_simps)

text \<open>Exclusive or is a group operation: cancellation.\<close>

lemma xor_cancel_left: "a XOR b = a XOR c \<longleftrightarrow> b = c" for a b c :: "'a::len word"
proof
  assume "a XOR b = a XOR c"
  then have "a XOR (a XOR b) = a XOR (a XOR c)" by simp
  then show "b = c" by (simp add: xor.assoc [symmetric])
qed simp

lemma xor_cancel_right: "a XOR c = b XOR c \<longleftrightarrow> a = b" for a b c :: "'a::len word"
  using xor_cancel_left [of c a b] by (simp add: xor.commute)

lemma xor_eq_self: "a XOR b = a \<longleftrightarrow> b = 0" for a b :: "'a::len word"
  using xor_cancel_left [of a b 0] by simp

lemma xor_eq_zero: "a XOR b = 0 \<longleftrightarrow> a = b" for a b :: "'a::len word"
  using xor_cancel_left [of a b a] by auto

text \<open>Below a bound, the successor of a word does not wrap around.\<close>

lemma below_le_succ: "k < n \<Longrightarrow> k \<le> k + 1" for k n :: "'a::len word"
  by (meson inc_less_eq_self_imp_top leI less_le_not_le)

lemma unat_succ_below:
  fixes k n :: "'a::len word"
  assumes "k < n"
  shows "unat (k + 1) = Suc (unat k)"
proof -
  have "k + 1 \<noteq> 0"
  proof
    assume zero: "k + 1 = 0"
    with below_le_succ [OF assms] have "k = 0" by simp
    with zero show False by simp
  qed
  then show ?thesis by (simp add: unatSuc add.commute)
qed

section \<open>Loops over a fixed list of indices\<close>

primrec for_each :: "'a list \<Rightarrow> ('a \<Rightarrow> 's \<Rightarrow> 's option) \<Rightarrow> 's \<Rightarrow> 's option" where
  "for_each [] body s = Some s"
| "for_each (x # xs) body s = Option.bind (body x s) (for_each xs body)"

lemma for_each_append:
  "for_each (xs @ ys) body s = Option.bind (for_each xs body s) (for_each ys body)"
  by (induction xs arbitrary: s) (auto split: bind_splits)

lemma bind_for_each_Nil [simp]: "Option.bind m (for_each [] body) = m"
  by (cases m) simp_all

lemma for_each_single: "for_each [x] body s = body x s"
  by simp

lemma for_each_snoc:
  "for_each (xs @ [x]) body s = Option.bind (for_each xs body s) (body x)"
  by (cases "for_each xs body s") (simp_all add: for_each_append)

lemma for_each_total:
  "(\<And>x s. x \<in> set xs \<Longrightarrow> body x s = Some (f x s)) \<Longrightarrow>
   for_each xs body s = Some (fold f xs s)"
  by (induction xs arbitrary: s) auto

lemma for_each_fails:
  assumes "x \<in> set xs" and "\<And>s. body x s = None"
  shows "for_each xs body s = None"
  using assms(1) by (induction xs arbitrary: s) (auto simp: assms(2) split: bind_splits)

lemma for_each_cong:
  "(\<And>x s. x \<in> set xs \<Longrightarrow> body x s = body' x s) \<Longrightarrow>
   for_each xs body s = for_each xs body' s"
  by (induction xs arbitrary: s) (auto split: bind_splits)

text \<open>A loop whose body appends one computed element per iteration (\<^verbatim>\<open>push_back\<close>).\<close>

lemma for_each_push:
  "(\<And>x. x \<in> set xs \<Longrightarrow> g x = Some (h x)) \<Longrightarrow>
   for_each xs (\<lambda>x acc. Option.bind (g x) (\<lambda>v. Some (acc @ [v]))) acc = Some (acc @ map h xs)"
  by (induction xs arbitrary: acc) auto

lemma for_each_push_fails:
  "x \<in> set xs \<Longrightarrow> g x = None \<Longrightarrow>
   for_each xs (\<lambda>x acc. Option.bind (g x) (\<lambda>v. Some (acc @ [v]))) acc = None"
  by (induction xs arbitrary: acc) (auto split: bind_splits)

lemma for_each_push_extend:
  "(\<And>x. x \<in> set xs \<Longrightarrow> g x = Some (h x)) \<Longrightarrow>
   for_each xs (\<lambda>x acc. Option.bind (g x) (\<lambda>v. Some (acc @ v))) acc = Some (acc @ concat (map h xs))"
  by (induction xs arbitrary: acc) auto

section \<open>Words and their bits, most significant first\<close>

definition bits_msb :: "'a::len word \<Rightarrow> bool list" where
  "bits_msb w = map (bit w) (rev [0..<LENGTH('a)])"

definition word_msb :: "bool list \<Rightarrow> 'a::len word" where
  "word_msb bs = horner_sum of_bool 2 (rev bs)"

lemma length_bits_msb [simp, dll_len]: "length (bits_msb (w :: 'a::len word)) = LENGTH('a)"
  by (simp add: bits_msb_def)

lemma nth_bits_msb:
  "i < LENGTH('a) \<Longrightarrow> bits_msb (w :: 'a::len word) ! i = bit w (LENGTH('a) - 1 - i)"
  by (simp add: bits_msb_def rev_nth)

lemma bit_word_msb:
  "bit (word_msb bs :: 'a::len word) n \<longleftrightarrow>
     n < LENGTH('a) \<and> n < length bs \<and> bs ! (length bs - 1 - n)"
  by (auto simp: word_msb_def bit_horner_sum_bit_word_iff rev_nth)

lemma word_msb_bits_msb [simp]: "word_msb (bits_msb w) = w"
  by (rule bit_word_eqI) (simp add: bit_word_msb nth_bits_msb)

lemma bits_msb_word_msb:
  "length bs = LENGTH('a) \<Longrightarrow> bits_msb (word_msb bs :: 'a::len word) = bs"
  by (rule nth_equalityI) (simp_all add: nth_bits_msb bit_word_msb)

lemma bits_msb_inject [simp]: "bits_msb v = bits_msb w \<longleftrightarrow> v = w"
  by (metis word_msb_bits_msb)

lemma bits_msb_zero [simp]: "bits_msb (0 :: 'a::len word) = replicate LENGTH('a) False"
  by (rule nth_equalityI) (simp_all add: nth_bits_msb)

lemma word_msb_replicate_False [simp]: "word_msb (replicate n False) = 0"
  by (rule bit_word_eqI) (simp add: bit_word_msb)

section \<open>Parity of a list of bits\<close>

text \<open>\<open>parity bs\<close> holds when an odd number of the bits of \<open>bs\<close> is set.\<close>

primrec parity :: "bool list \<Rightarrow> bool" where
  "parity [] = False"
| "parity (b # bs) = (b \<noteq> parity bs)"

lemma parity_append [simp]: "parity (xs @ ys) = (parity xs \<noteq> parity ys)"
  by (induction xs) auto

lemma parity_rev [simp]: "parity (rev xs) = parity xs"
  by (induction xs) auto

lemma parity_replicate_False [simp]: "parity (replicate n False) = False"
  by (induction n) auto

lemma parity_list_update:
  "i < length bs \<Longrightarrow> parity (bs[i := v]) = (parity bs \<noteq> (bs ! i \<noteq> v))"
proof (induction bs arbitrary: i)
  case Nil
  then show ?case by simp
next
  case (Cons b bs)
  then show ?case by (cases i) auto
qed

lemma parity_odd_count: "parity bs \<longleftrightarrow> odd (length (filter id bs))"
  by (induction bs) auto

end
