(* ===== verification/StdBitset.thy ===== *)
theory StdBitset
  imports DLL_Prelude
begin

text \<open>
  The operations of \<^verbatim>\<open>std::bitset<N>\<close> that the sources call, over \<open>'n word\<close>: bit
  \<open>i\<close> of the word is \<^verbatim>\<open>b[i]\<close>. The C++ standard gives \<^verbatim>\<open>operator[]\<close> the
  precondition \<open>pos < N\<close> and leaves a subscript past the end undefined, so the
  model makes the outcome of such a subscript explicit:

  \<^item> \<open>bs_read oob b pos\<close> is the subscript read. In range it yields the bit. Out of
    range it yields \<open>oob\<close>, the platform's answer: \<open>None\<close> when the access stops the
    program (a build with library assertions), \<open>Some v\<close> when the read goes through
    and happens to see \<open>v\<close> (an unchecked build reads the word that stores the
    bits; its unused bits are kept at zero, so \<open>Some False\<close> is what such builds
    see).
  \<^item> \<open>bs_peek v b pos\<close> is what a read that goes through sees: the bit in range,
    \<open>v\<close> out of range.
  \<^item> \<open>bs_write b pos v\<close> is the subscript write \<^verbatim>\<open>b[pos] = v\<close>; out of range it is
    \<open>None\<close> whatever the platform, since a stray write has no value in the model.
  \<^item> \<open>bs_set\<close>, \<open>bs_shl\<close>, \<open>bs_to_ulong\<close>, \<open>bs_from_ulong\<close> and \<open>bs_from_string\<close> are
    \<^verbatim>\<open>set(pos, val)\<close>, \<^verbatim>\<open><<=\<close>, \<^verbatim>\<open>to_ulong()\<close> and the two constructors.
  \<^item> \<open>bs_to_string b\<close> is what \<^verbatim>\<open>operator<<\<close> writes for \<open>b\<close>: its \<open>N\<close> bits as
    characters \<^verbatim>\<open>0\<close> and \<^verbatim>\<open>1\<close>, the top bit first.

  The lemmas give the bits of a word after a loop of writes
  (\<open>bit_fold_assign_hit\<close>, \<open>bit_fold_assign_other\<close>), which is how every
  bit-copying loop of the sources is related to a closed form.
\<close>

section \<open>Element access\<close>

definition bs_read :: "bool option \<Rightarrow> 'a::len word \<Rightarrow> nat \<Rightarrow> bool option" where
  "bs_read oob b pos = (if pos < LENGTH('a) then Some (bit b pos) else oob)"

definition bs_assign :: "'a::len word \<Rightarrow> nat \<Rightarrow> bool \<Rightarrow> 'a word" where
  "bs_assign b pos v = (if v then set_bit pos b else unset_bit pos b)"

definition bs_write :: "'a::len word \<Rightarrow> nat \<Rightarrow> bool \<Rightarrow> 'a word option" where
  "bs_write b pos v = (if pos < LENGTH('a) then Some (bs_assign b pos v) else None)"

definition bs_set :: "'a::len word \<Rightarrow> nat \<Rightarrow> bool \<Rightarrow> 'a word option" where
  "bs_set b pos v = (if pos < LENGTH('a) then Some (bs_assign b pos v) else None)"

definition bs_peek :: "bool \<Rightarrow> 'a::len word \<Rightarrow> nat \<Rightarrow> bool" where
  "bs_peek v b pos = (if pos < LENGTH('a) then bit b pos else v)"

section \<open>Whole-word operations\<close>

definition bs_shl :: "'a::len word \<Rightarrow> nat \<Rightarrow> 'a word" where
  "bs_shl b n = push_bit n b"

definition bs_to_ulong :: "'a::len word \<Rightarrow> 64 word option" where
  "bs_to_ulong b = (if unat b < 2 ^ 64 then Some (ucast b) else None)"

definition bs_from_ulong :: "'b::len word \<Rightarrow> 'a::len word" where
  "bs_from_ulong v = ucast v"

definition bs_string :: "string \<Rightarrow> 'a::len word" where
  "bs_string str = word_msb (map (\<lambda>c. c = CHR ''1'') (take LENGTH('a) str))"

definition bs_from_string :: "string \<Rightarrow> 'a::len word option" where
  "bs_from_string str =
     (if list_all (\<lambda>c. c = CHR ''0'' \<or> c = CHR ''1'') str then Some (bs_string str) else None)"

definition bs_to_string :: "'a::len word \<Rightarrow> string" where
  "bs_to_string b = map (\<lambda>v. if v then CHR ''1'' else CHR ''0'') (bits_msb b)"

section \<open>Reads and writes in and out of range\<close>

lemma bs_read_in_range [simp]:
  "pos < LENGTH('a) \<Longrightarrow> bs_read oob (b :: 'a::len word) pos = Some (bit b pos)"
  by (simp add: bs_read_def)

lemma bs_read_out_of_range [simp]:
  "LENGTH('a) \<le> pos \<Longrightarrow> bs_read oob (b :: 'a::len word) pos = oob"
  by (simp add: bs_read_def)

lemma bs_read_Some: "bs_read (Some v) b pos = Some (bs_peek v b pos)"
  by (simp add: bs_read_def bs_peek_def)

lemma bs_peek_in_range [simp]: "pos < LENGTH('a) \<Longrightarrow> bs_peek v (b :: 'a::len word) pos = bit b pos"
  by (simp add: bs_peek_def)

lemma bs_write_in_range [simp]:
  "pos < LENGTH('a) \<Longrightarrow> bs_write (b :: 'a::len word) pos v = Some (bs_assign b pos v)"
  by (simp add: bs_write_def)

lemma bs_write_out_of_range [simp]:
  "LENGTH('a) \<le> pos \<Longrightarrow> bs_write (b :: 'a::len word) pos v = None"
  by (simp add: bs_write_def)

lemma bs_set_in_range [simp]:
  "pos < LENGTH('a) \<Longrightarrow> bs_set (b :: 'a::len word) pos v = Some (bs_assign b pos v)"
  by (simp add: bs_set_def)

lemma bit_bs_assign:
  "bit (bs_assign b pos v) n = (if n = pos then v \<and> n < LENGTH('a) else bit b n)"
  for b :: "'a::len word"
  by (auto simp: bs_assign_def bit_simps dest: bit_imp_le_length)

lemma bs_assign_same [simp]: "bs_assign b pos (bit b pos) = b"
  by (rule bit_word_eqI) (auto simp: bit_bs_assign)

lemma bit_bs_shl:
  "bit (bs_shl b k) n \<longleftrightarrow> k \<le> n \<and> n < LENGTH('a) \<and> bit b (n - k)"
  for b :: "'a::len word"
  by (auto simp: bs_shl_def bit_simps)

section \<open>A loop of writes\<close>

text \<open>
  A loop \<^verbatim>\<open>for (i ...) b[g(i)] = f(i)\<close> over distinct positions leaves \<open>f i\<close> at
  position \<open>g i\<close> and every other bit as it was.
\<close>

lemma bit_fold_assign_other:
  "n \<notin> g ` set xs \<Longrightarrow> bit (fold (\<lambda>i w. bs_assign w (g i) (f i)) xs w) n = bit w n"
  for w :: "'a::len word"
  by (induction xs arbitrary: w) (auto simp: bit_bs_assign)

lemma bit_fold_assign_hit:
  "inj_on g (set xs) \<Longrightarrow> i \<in> set xs \<Longrightarrow> g i < LENGTH('a) \<Longrightarrow>
   bit (fold (\<lambda>i w. bs_assign w (g i) (f i)) xs (w :: 'a::len word)) (g i) = f i"
proof (induction xs arbitrary: w)
  case Nil
  then show ?case by simp
next
  case (Cons x xs)
  show ?case
  proof (cases "i \<in> set xs")
    case True
    with Cons show ?thesis by (auto simp: inj_on_def)
  next
    case False
    with Cons.prems have "i = x" and "g i \<notin> g ` set xs" by (auto simp: inj_on_def)
    with Cons.prems show ?thesis by (simp add: bit_fold_assign_other bit_bs_assign)
  qed
qed

lemma for_each_writes:
  "(\<And>i. i \<in> set xs \<Longrightarrow> g i < LENGTH('a)) \<Longrightarrow>
   for_each xs (\<lambda>i w. bs_write w (g i) (f i)) (w :: 'a::len word)
     = Some (fold (\<lambda>i w. bs_assign w (g i) (f i)) xs w)"
  by (rule for_each_total) simp

lemma for_each_write_fails:
  "i \<in> set xs \<Longrightarrow> LENGTH('a) \<le> g i \<Longrightarrow>
   for_each xs (\<lambda>i w. bs_write w (g i) (f i)) (w :: 'a::len word) = None"
  by (rule for_each_fails [where x = i]) simp_all

section \<open>Conversions\<close>

lemma bs_to_ulong_small [simp, dll_safe]:
  "LENGTH('a) \<le> 64 \<Longrightarrow> bs_to_ulong (b :: 'a::len word) = Some (ucast b)"
proof -
  assume len: "LENGTH('a) \<le> 64"
  have "unat b < 2 ^ LENGTH('a)" by (rule unsigned_less)
  also have "(2::nat) ^ LENGTH('a) \<le> 2 ^ 64" using len by (rule power_increasing) simp
  finally show ?thesis by (simp add: bs_to_ulong_def)
qed

lemma bs_from_string_valid:
  "list_all (\<lambda>c. c = CHR ''0'' \<or> c = CHR ''1'') str \<Longrightarrow> bs_from_string str = Some (bs_string str)"
  by (simp add: bs_from_string_def)

lemma bs_from_string_invalid:
  "c \<in> set str \<Longrightarrow> c \<noteq> CHR ''0'' \<Longrightarrow> c \<noteq> CHR ''1'' \<Longrightarrow> bs_from_string str = None"
  by (auto simp: bs_from_string_def list_all_iff)

section \<open>Writing a bitset and reading it back\<close>

lemma length_bs_to_string [simp, dll_len]: "length (bs_to_string (b :: 'a::len word)) = LENGTH('a)"
  by (simp add: bs_to_string_def)

lemma bs_to_string_digits: "list_all (\<lambda>c. c = CHR ''0'' \<or> c = CHR ''1'') (bs_to_string b)"
  by (auto simp: bs_to_string_def list_all_iff)

lemma bs_string_to_string [simp]: "bs_string (bs_to_string b) = b"
  by (simp add: bs_string_def bs_to_string_def comp_def)

lemma bs_to_string_inject [simp]: "bs_to_string v = bs_to_string w \<longleftrightarrow> v = w"
  by (metis bs_string_to_string)

lemma bs_to_string_string:
  assumes "length str = LENGTH('a)" and "list_all (\<lambda>c. c = CHR ''0'' \<or> c = CHR ''1'') str"
  shows "bs_to_string (bs_string str :: 'a::len word) = str"
proof -
  from assms(2) have "map (\<lambda>v. if v then CHR ''1'' else CHR ''0'') (map (\<lambda>c. c = CHR ''1'') str) = str"
    by (induction str) auto
  with assms(1) show ?thesis by (simp add: bs_to_string_def bs_string_def bits_msb_word_msb)
qed

text \<open>
  What \<^verbatim>\<open>operator<<\<close> writes for a bitset is read back by the constructor from
  a string: the text is \<open>N\<close> characters \<^verbatim>\<open>0\<close> or \<^verbatim>\<open>1\<close>, the constructor accepts it,
  and the bitset it builds is the one that was written.
\<close>

theorem bitset_text_roundtrip:
  "length (bs_to_string (b :: 'a::len word)) = LENGTH('a) \<and> bs_from_string (bs_to_string b) = Some b"
  by (simp add: bs_from_string_valid bs_to_string_digits)

end
