(* ===== verification/BitFramer.thy ===== *)
theory BitFramer
  imports StdBitset
begin

text \<open>
  The framing pipeline of \<^verbatim>\<open>src/viba.cpp\<close>: \<^verbatim>\<open>bytesToBits\<close> (bytes to a bit
  sequence, most significant bit of each byte first), \<^verbatim>\<open>splitIntoFrames\<close>
  (windows of \<open>FRAME_SIZE\<close> bits, the last one padded with zeros) and
  \<^verbatim>\<open>toBitsets\<close> (each frame copied into a \<^verbatim>\<open>bitset<100>\<close>, first bit of the
  frame at the top position).

  A \<^verbatim>\<open>vector<bool>\<close> is a \<open>bool list\<close>, a \<^verbatim>\<open>vector<unsigned char>\<close> a \<open>byte list\<close>,
  a \<^verbatim>\<open>bitset<100>\<close> a \<open>100 word\<close>. The two \<^verbatim>\<open>while\<close>/\<^verbatim>\<open>for\<close> loops of
  \<^verbatim>\<open>splitIntoFrames\<close> whose trip count depends on the data are recursive
  functions with a termination proof (\<open>pad_frame\<close>, \<open>split_loop\<close>); the loops
  over a known index range use \<open>for_each\<close>. Indices that the source computes in
  \<^verbatim>\<open>size_t\<close> and that can wrap are computed in \<open>size_t\<close> here as well
  (\<open>toBitset\<close>).

  \<open>chunk_frames\<close> is the reference the loop is compared with: cut \<open>FRAME_SIZE\<close>
  bits off the front, pad the piece, go on with the rest.
\<close>

section \<open>Constants\<close>

definition FRAME_SIZE :: nat where
  "FRAME_SIZE = 100"

lemma FRAME_SIZE_pos [simp]: "0 < FRAME_SIZE"
  by (simp add: FRAME_SIZE_def)

lemma LENGTH_frame: "LENGTH(100) = FRAME_SIZE"
  by (simp add: FRAME_SIZE_def)

section \<open>bytesToBits\<close>

definition bytesToBits :: "bool option \<Rightarrow> byte list \<Rightarrow> bool list option" where
  "bytesToBits oob data =
     for_each data (\<lambda>byte.
       for_each (rev [0..<8]) (\<lambda>i bits. do {
         v \<leftarrow> bs_read oob (bs_from_ulong byte :: 8 word) i;
         Some (bits @ [v])
       })) []"

section \<open>splitIntoFrames\<close>

definition vec_range :: "'a list \<Rightarrow> nat \<Rightarrow> nat \<Rightarrow> 'a list" where
  "vec_range xs lo hi = take (hi - lo) (drop lo xs)"

function pad_frame :: "bool list \<Rightarrow> bool list" where
  "pad_frame frame =
     (if length frame < FRAME_SIZE then pad_frame (frame @ [False]) else frame)"
  by pat_completeness auto
termination
  by (relation "measure (\<lambda>frame. FRAME_SIZE - length frame)") auto

declare pad_frame.simps [simp del]

function split_loop :: "bool list \<Rightarrow> nat \<Rightarrow> bool list list \<Rightarrow> bool list list" where
  "split_loop bits i frames =
     (if i < length bits
      then split_loop bits (i + FRAME_SIZE)
             (frames @ [pad_frame (vec_range bits i (min (i + FRAME_SIZE) (length bits)))])
      else frames)"
  by pat_completeness auto
termination
  by (relation "measure (\<lambda>(bits, i, frames). length bits - i)") (auto simp: FRAME_SIZE_def)

declare split_loop.simps [simp del]

definition splitIntoFrames :: "bool list \<Rightarrow> bool list list" where
  "splitIntoFrames bits = split_loop bits 0 []"

section \<open>toBitsets\<close>

definition toBitset :: "bool list \<Rightarrow> 100 word option" where
  "toBitset frame =
     for_each [0..<length frame]
       (\<lambda>i b. bs_write b (unat (of_nat FRAME_SIZE - 1 - of_nat i :: size_t)) (frame ! i)) 0"

definition toBitsets :: "bool list list \<Rightarrow> 100 word list option" where
  "toBitsets frames =
     for_each frames (\<lambda>frame result. do {
       b \<leftarrow> toBitset frame;
       Some (result @ [b])
     }) []"

section \<open>The reference: cutting a bit sequence into padded windows\<close>

fun chunk_frames :: "bool list \<Rightarrow> bool list list" where
  "chunk_frames bits =
     (if bits = [] then []
      else (take FRAME_SIZE bits @ replicate (FRAME_SIZE - length bits) False)
             # chunk_frames (drop FRAME_SIZE bits))"

declare chunk_frames.simps [simp del]

lemma chunk_frames_Nil [simp]: "chunk_frames [] = []"
  by (simp add: chunk_frames.simps)

lemma chunk_frames_step:
  "bits \<noteq> [] \<Longrightarrow> chunk_frames bits =
     (take FRAME_SIZE bits @ replicate (FRAME_SIZE - length bits) False)
       # chunk_frames (drop FRAME_SIZE bits)"
  by (subst chunk_frames.simps) simp

lemma ceil_div_frame:
  assumes "0 < n"
  shows "Suc ((n - FRAME_SIZE + (FRAME_SIZE - 1)) div FRAME_SIZE) = (n + (FRAME_SIZE - 1)) div FRAME_SIZE"
proof (cases "FRAME_SIZE \<le> n")
  case True
  then have "n + (FRAME_SIZE - 1) = (n - FRAME_SIZE + (FRAME_SIZE - 1)) + FRAME_SIZE" by simp
  then have "(n + (FRAME_SIZE - 1)) div FRAME_SIZE
      = ((n - FRAME_SIZE + (FRAME_SIZE - 1)) + FRAME_SIZE) div FRAME_SIZE" by simp
  also have "\<dots> = Suc ((n - FRAME_SIZE + (FRAME_SIZE - 1)) div FRAME_SIZE)"
    by (subst div_add_self2) simp_all
  finally show ?thesis by simp
next
  case False
  with assms have "(n + (FRAME_SIZE - 1)) div FRAME_SIZE = 1"
    by (intro div_nat_eqI) (simp_all add: FRAME_SIZE_def)
  with False show ?thesis by (simp add: FRAME_SIZE_def)
qed

lemma length_chunk_frames [dll_len]:
  "length (chunk_frames bits) = (length bits + (FRAME_SIZE - 1)) div FRAME_SIZE"
proof (induction bits rule: chunk_frames.induct)
  case (1 bits)
  show ?case
  proof (cases "bits = []")
    case True
    then show ?thesis by (simp add: FRAME_SIZE_def)
  next
    case False
    with 1 have "length (chunk_frames bits)
        = Suc ((length bits - FRAME_SIZE + (FRAME_SIZE - 1)) div FRAME_SIZE)"
      by (simp add: chunk_frames_step)
    also have "\<dots> = (length bits + (FRAME_SIZE - 1)) div FRAME_SIZE"
      using False by (intro ceil_div_frame) simp
    finally show ?thesis .
  qed
qed

lemma chunk_frames_all_full [dll_len]:
  "frame \<in> set (chunk_frames bits) \<Longrightarrow> length frame = FRAME_SIZE"
proof (induction bits rule: chunk_frames.induct)
  case (1 bits)
  show ?case
  proof (cases "bits = []")
    case True
    with "1.prems" show ?thesis by simp
  next
    case False
    with 1 show ?thesis by (auto simp: chunk_frames_step)
  qed
qed

lemma concat_chunk_frames:
  "concat (chunk_frames bits)
     = bits @ replicate ((FRAME_SIZE - length bits mod FRAME_SIZE) mod FRAME_SIZE) False"
proof (induction bits rule: chunk_frames.induct)
  case (1 bits)
  show ?case
  proof (cases "bits = []")
    case True
    then show ?thesis by simp
  next
    case False
    note ne = this
    show ?thesis
    proof (cases "length bits < FRAME_SIZE")
      case True
      with ne show ?thesis by (simp add: chunk_frames_step)
    next
      case False
      then have "(length bits - FRAME_SIZE) mod FRAME_SIZE = length bits mod FRAME_SIZE"
        by (simp add: le_mod_geq)
      with 1 ne False show ?thesis by (simp add: chunk_frames_step)
    qed
  qed
qed

section \<open>bytesToBits: result, safety, length\<close>

lemma byte_loop:
  "for_each (rev [0..<8]) (\<lambda>i bits. do {
       v \<leftarrow> bs_read oob (bs_from_ulong byte :: 8 word) i;
       Some (bits @ [v]) }) bits
     = Some (bits @ bits_msb (byte :: byte))"
proof -
  have "for_each (rev [0..<8]) (\<lambda>i bits. Option.bind (bs_read oob (bs_from_ulong byte :: 8 word) i)
          (\<lambda>v. Some (bits @ [v]))) bits
        = Some (bits @ map (bit byte) (rev [0..<8]))"
    by (rule for_each_push) (simp add: bs_from_ulong_def)
  then show ?thesis by (simp add: bits_msb_def)
qed

lemma bytesToBits_from:
  "for_each data (\<lambda>byte.
       for_each (rev [0..<8]) (\<lambda>i bits. do {
         v \<leftarrow> bs_read oob (bs_from_ulong byte :: 8 word) i;
         Some (bits @ [v]) })) acc
     = Some (acc @ concat (map bits_msb (data :: byte list)))"
  by (induction data arbitrary: acc) (simp_all add: byte_loop)

lemma bytesToBits_eq [dll_safe]:
  "bytesToBits oob data = Some (concat (map bits_msb data))"
  by (simp add: bytesToBits_def bytesToBits_from)

lemma length_concat_bits_msb [dll_len]:
  "length (concat (map bits_msb (data :: byte list))) = 8 * length data"
  by (induction data) simp_all

section \<open>splitIntoFrames against the reference\<close>

lemma pad_frame_eq: "pad_frame frame = frame @ replicate (FRAME_SIZE - length frame) False"
proof (induction frame rule: pad_frame.induct)
  case (1 frame)
  show ?case
  proof (cases "length frame < FRAME_SIZE")
    case True
    then have "FRAME_SIZE - length frame = Suc (FRAME_SIZE - Suc (length frame))" by simp
    with True 1 show ?thesis
      by (subst pad_frame.simps) (simp add: replicate_app_Cons_same)
  next
    case False
    then show ?thesis by (subst pad_frame.simps) simp
  qed
qed

lemma vec_range_window:
  "vec_range bits i (min (i + FRAME_SIZE) (length bits)) = take FRAME_SIZE (drop i bits)"
  by (simp add: vec_range_def min_def)

lemma pad_window:
  "pad_frame (take FRAME_SIZE bits)
     = take FRAME_SIZE bits @ replicate (FRAME_SIZE - length bits) False"
  by (simp add: pad_frame_eq min_def)

lemma split_loop_eq: "split_loop bits i frames = frames @ chunk_frames (drop i bits)"
proof (induction bits i frames rule: split_loop.induct)
  case (1 bits i frames)
  show ?case
  proof (cases "i < length bits")
    case True
    let ?frame = "pad_frame (take FRAME_SIZE (drop i bits))"
    from True have "split_loop bits i frames = split_loop bits (i + FRAME_SIZE) (frames @ [?frame])"
      by (subst split_loop.simps) (simp add: vec_range_window)
    also from True 1 have "\<dots> = (frames @ [?frame]) @ chunk_frames (drop (i + FRAME_SIZE) bits)"
      by (simp add: vec_range_window)
    also from True have "\<dots> = frames @ chunk_frames (drop i bits)"
      by (simp add: chunk_frames_step [of "drop i bits"] pad_window add.commute)
    finally show ?thesis .
  next
    case False
    then show ?thesis by (subst split_loop.simps) simp
  qed
qed

lemma splitIntoFrames_eq: "splitIntoFrames bits = chunk_frames bits"
  by (simp add: splitIntoFrames_def split_loop_eq)

section \<open>toBitsets: positions, result, the out-of-range write\<close>

text \<open>
  The position \<^verbatim>\<open>FRAME_SIZE - 1 - i\<close> is computed in \<open>size_t\<close>: below \<open>FRAME_SIZE\<close> it
  is the mirrored index, at \<open>i = FRAME_SIZE\<close> it wraps around to the largest value of
  the type.
\<close>

lemma frame_index:
  assumes "i < FRAME_SIZE"
  shows "unat (of_nat FRAME_SIZE - 1 - of_nat i :: size_t) = FRAME_SIZE - 1 - i"
proof (rule of_nat_inverse)
  show "(word_of_nat (FRAME_SIZE - 1 - i) :: size_t) = of_nat FRAME_SIZE - 1 - of_nat i"
    using assms by (simp add: FRAME_SIZE_def)
  show "FRAME_SIZE - 1 - i < 2 ^ LENGTH(64)" by (simp add: FRAME_SIZE_def)
qed

lemma frame_index_wraps:
  "unat (of_nat FRAME_SIZE - 1 - of_nat FRAME_SIZE :: size_t) = 2 ^ 64 - 1"
  by (simp add: FRAME_SIZE_def unsigned_minus_1_eq_mask mask_eq_exp_minus_1)

lemma toBitset_fold:
  assumes "length frame \<le> FRAME_SIZE"
  shows "toBitset frame
    = Some (fold (\<lambda>i w. bs_assign w (FRAME_SIZE - 1 - i) (frame ! i)) [0..<length frame] 0)"
proof -
  have "toBitset frame
      = for_each [0..<length frame] (\<lambda>i b. bs_write b (FRAME_SIZE - 1 - i) (frame ! i)) 0"
    unfolding toBitset_def using assms by (intro for_each_cong) (simp add: frame_index)
  also have "\<dots> = Some (fold (\<lambda>i w. bs_assign w (FRAME_SIZE - 1 - i) (frame ! i)) [0..<length frame] 0)"
    by (rule for_each_writes) (simp add: FRAME_SIZE_def)
  finally show ?thesis .
qed

lemma toBitset_eq:
  assumes "length frame \<le> FRAME_SIZE"
  shows "toBitset frame = Some (word_msb (frame @ replicate (FRAME_SIZE - length frame) False))"
proof -
  let ?g = "\<lambda>i. FRAME_SIZE - 1 - i"
  let ?w = "fold (\<lambda>i w. bs_assign w (?g i) (frame ! i)) [0..<length frame] (0 :: 100 word)"
  have inj: "inj_on ?g (set [0..<length frame])"
    using assms by (auto simp: inj_on_def)
  have "?w = word_msb (frame @ replicate (FRAME_SIZE - length frame) False)"
  proof (rule bit_word_eqI)
    fix n assume "n < LENGTH(100)"
    then have n: "n < FRAME_SIZE" by (simp add: FRAME_SIZE_def)
    show "bit ?w n = bit (word_msb (frame @ replicate (FRAME_SIZE - length frame) False) :: 100 word) n"
    proof (cases "FRAME_SIZE - 1 - n < length frame")
      case True
      then have mem: "FRAME_SIZE - 1 - n \<in> set [0..<length frame]" by simp
      have gi: "?g (FRAME_SIZE - 1 - n) = n" using n by simp
      from bit_fold_assign_hit [OF inj mem, where f = "\<lambda>i. frame ! i" and w = "0 :: 100 word"] n gi
      have "bit ?w n = frame ! (FRAME_SIZE - 1 - n)" by (simp add: FRAME_SIZE_def)
      with True n assms show ?thesis by (simp add: bit_word_msb nth_append FRAME_SIZE_def)
    next
      case False
      then have "n \<notin> ?g ` set [0..<length frame]" using n by auto
      then have "bit ?w n = bit (0 :: 100 word) n" by (rule bit_fold_assign_other)
      with False n assms show ?thesis by (simp add: bit_word_msb nth_append FRAME_SIZE_def)
    qed
  qed
  with toBitset_fold [OF assms] show ?thesis by simp
qed

lemma toBitset_too_long:
  assumes "FRAME_SIZE < length frame"
  shows "toBitset frame = None"
  unfolding toBitset_def
proof (rule for_each_write_fails [where i = FRAME_SIZE])
  show "FRAME_SIZE \<in> set [0..<length frame]" using assms by simp
  show "LENGTH(100) \<le> unat (of_nat FRAME_SIZE - 1 - of_nat FRAME_SIZE :: size_t)"
    unfolding frame_index_wraps by simp
qed

lemma toBitsets_eq:
  assumes "\<And>frame. frame \<in> set frames \<Longrightarrow> length frame = FRAME_SIZE"
  shows "toBitsets frames = Some (map word_msb frames)"
proof -
  have "toBitsets frames = Some ([] @ map word_msb frames)"
    unfolding toBitsets_def using assms by (intro for_each_push) (simp add: toBitset_eq)
  then show ?thesis by simp
qed

lemma toBitsets_chunk_frames [dll_safe]:
  "toBitsets (chunk_frames bits) = Some (map word_msb (chunk_frames bits))"
  by (rule toBitsets_eq) (rule chunk_frames_all_full)

lemma toBitsets_too_long:
  assumes "frame \<in> set frames" and "FRAME_SIZE < length frame"
  shows "toBitsets frames = None"
  unfolding toBitsets_def using assms(1) toBitset_too_long [OF assms(2)]
  by (rule for_each_push_fails)

lemma take_concat_chunk_frames: "take (length bits) (concat (chunk_frames bits)) = bits"
  by (simp add: concat_chunk_frames)

lemma bits_msb_chunk_frames:
  "frame \<in> set (chunk_frames bits) \<Longrightarrow> bits_msb (word_msb frame :: 100 word) = frame"
  by (rule bits_msb_word_msb) (simp add: chunk_frames_all_full FRAME_SIZE_def)

section \<open>Properties of the framing pipeline\<close>

text \<open>
  C21: \<^verbatim>\<open>bytesToBits\<close> never subscripts out of range, whatever the platform does
  with such a subscript, and returns the bits of every byte, most significant bit
  first, in the order of the bytes.
\<close>

theorem bytesToBits_msb_first:
  "bytesToBits oob data = Some (concat (map bits_msb data))"
  by (rule bytesToBits_eq)

text \<open>
  C4: \<^verbatim>\<open>splitIntoFrames\<close> yields \<open>ceil (n / FRAME_SIZE)\<close> frames for \<open>n\<close> bits; in
  particular no frame for no bits.
\<close>

theorem splitIntoFrames_count:
  "length (splitIntoFrames bits) = (length bits + (FRAME_SIZE - 1)) div FRAME_SIZE"
  by (simp add: splitIntoFrames_eq length_chunk_frames)

text \<open>C20: every frame that \<^verbatim>\<open>splitIntoFrames\<close> produces has exactly \<open>FRAME_SIZE\<close> bits.\<close>

theorem splitIntoFrames_full:
  "\<forall>frame \<in> set (splitIntoFrames bits). length frame = FRAME_SIZE"
  by (simp add: splitIntoFrames_eq chunk_frames_all_full)

theorem splitIntoFrames_full_witness:
  "splitIntoFrames [True, False, True] \<noteq> []
   \<and> length (hd (splitIntoFrames [True, False, True])) = FRAME_SIZE"
  using splitIntoFrames_full [of "[True, False, True]"]
  by (simp add: splitIntoFrames_eq chunk_frames_step)

text \<open>
  C9: the frames, laid end to end, are the input bits followed by zeros only, and by
  fewer than \<open>FRAME_SIZE\<close> of them: nothing is dropped, reordered or padded in the
  middle.
\<close>

theorem splitIntoFrames_padding:
  "concat (splitIntoFrames bits)
     = bits @ replicate ((FRAME_SIZE - length bits mod FRAME_SIZE) mod FRAME_SIZE) False"
  by (simp add: splitIntoFrames_eq concat_chunk_frames)

text \<open>
  C10: on the frames of \<^verbatim>\<open>splitIntoFrames\<close>, \<^verbatim>\<open>toBitsets\<close> writes in range only
  and stores the first bit of each frame at the top bit of its \<^verbatim>\<open>bitset\<close>.
\<close>

theorem toBitsets_splitIntoFrames:
  "toBitsets (splitIntoFrames bits) = Some (map word_msb (splitIntoFrames bits))"
  by (simp add: splitIntoFrames_eq toBitsets_chunk_frames)

text \<open>
  C22: a frame longer than \<open>FRAME_SIZE\<close> makes \<^verbatim>\<open>toBitsets\<close> write past the end of
  the \<^verbatim>\<open>bitset\<close>: the position wraps around in \<open>size_t\<close> at the first bit after
  the hundredth.
\<close>

theorem toBitset_out_of_range:
  "FRAME_SIZE < length frame \<Longrightarrow> toBitset frame = None"
  by (rule toBitset_too_long)

theorem toBitset_out_of_range_witness:
  "FRAME_SIZE < length (replicate 101 True) \<and> toBitset (replicate 101 True) = None"
  using toBitset_out_of_range [of "replicate 101 True"] by (simp add: FRAME_SIZE_def)

text \<open>
  C23: framing loses nothing: the bits of the stored frames, read from the top bit
  down and cut to the input's length, are the input bits.
\<close>

theorem framing_roundtrip:
  "map_option (\<lambda>ws. take (length bits) (concat (map bits_msb ws)))
     (toBitsets (splitIntoFrames bits)) = Some bits"
proof -
  have "map bits_msb (map (word_msb :: bool list \<Rightarrow> 100 word) (chunk_frames bits)) = chunk_frames bits"
    by (simp add: map_idI bits_msb_chunk_frames)
  then show ?thesis
    by (simp add: splitIntoFrames_eq toBitsets_chunk_frames take_concat_chunk_frames)
qed

end
