(* ===== verification/CrcEngine.thy ===== *)
theory CrcEngine
  imports BitFramer
begin

text \<open>
  The frame check sequence of \<^verbatim>\<open>src/viba.cpp\<close>: the generator \<^verbatim>\<open>crcKey\<close>, the
  division step \<^verbatim>\<open>crcDivision\<close> and the per-frame loop of \<^verbatim>\<open>calculateCRC\<close>
  (\<open>crc_frame\<close> is the body of its outer loop, \<open>calculateCRC\<close> the loop over the
  frames).

  \<^verbatim>\<open>crcDivision\<close> receives a \<^verbatim>\<open>bitset<16>\<close> and subscripts it at positions 1 to
  16, so its last read is past the end. The model keeps that read: with \<open>oob = None\<close>
  the function fails, with \<open>oob = Some v\<close> the value \<open>v\<close> enters the result at the top
  bit. \<open>crc_div\<close> is the closed form of the step, \<open>crc_step\<close> the closed form of one
  round of the loop (divide, shift left, set bit 0), and \<open>crc_value\<close> the closed form
  of the whole computation for one frame.
\<close>

section \<open>Constants\<close>

definition CRC_SIZE :: nat where
  "CRC_SIZE = 16"

definition TOTAL_SIZE :: nat where
  "TOTAL_SIZE = FRAME_SIZE + CRC_SIZE"

definition crcKey :: "17 word" where
  "crcKey = bs_string ''10001000000100001''"

lemmas size_defs = FRAME_SIZE_def CRC_SIZE_def TOTAL_SIZE_def

section \<open>crcDivision\<close>

definition crcDivision :: "bool option \<Rightarrow> 16 word \<Rightarrow> 17 word \<Rightarrow> 16 word option" where
  "crcDivision oob bits key = do {
     b0 \<leftarrow> bs_read oob bits 0;
     if b0 = False then
       for_each [1..<CRC_SIZE + 1] (\<lambda>i result. do {
         b \<leftarrow> bs_read oob bits i;
         bs_write result (i - 1) b
       }) 0
     else
       for_each [1..<CRC_SIZE + 1] (\<lambda>i result. do {
         k \<leftarrow> bs_read oob key i;
         b \<leftarrow> bs_read oob bits i;
         bs_write result (i - 1) (k \<noteq> b)
       }) 0
   }"

section \<open>calculateCRC\<close>

definition crc_frame :: "bool option \<Rightarrow> 100 word \<Rightarrow> 16 word option" where
  "crc_frame oob frame = do {
     temp \<leftarrow> for_each [0..<FRAME_SIZE] (\<lambda>i temp. do {
       v \<leftarrow> bs_read oob frame (FRAME_SIZE - 1 - i);
       bs_write (temp :: 116 word) (TOTAL_SIZE - 1 - i) v
     }) 0;
     working \<leftarrow> for_each [0..<CRC_SIZE] (\<lambda>i working. do {
       v \<leftarrow> bs_read oob temp i;
       bs_write (working :: 16 word) i v
     }) 0;
     working \<leftarrow> for_each [CRC_SIZE..<TOTAL_SIZE] (\<lambda>i working. do {
       working \<leftarrow> crcDivision oob working crcKey;
       v \<leftarrow> bs_read oob temp i;
       bs_set (bs_shl working 1) 0 v
     }) working;
     crcDivision oob working crcKey
   }"

definition calculateCRC :: "bool option \<Rightarrow> 100 word list \<Rightarrow> 16 word list option" where
  "calculateCRC oob frames =
     for_each frames (\<lambda>frame crcList. do {
       working \<leftarrow> crc_frame oob frame;
       Some (crcList @ [working])
     }) []"

section \<open>Closed forms\<close>

text \<open>
  \<open>shift_in v bits\<close> moves the register one place down and lets \<open>v\<close> in at the top;
  \<open>crc_div\<close> exclusive-ors the generator without its lowest bit into it when bit 0
  of the register was set.
\<close>

definition shift_in :: "bool \<Rightarrow> 16 word \<Rightarrow> 16 word" where
  "shift_in v bits = drop_bit 1 bits OR (if v then 0x8000 else 0)"

definition crc_div :: "bool \<Rightarrow> 16 word \<Rightarrow> 17 word \<Rightarrow> 16 word" where
  "crc_div v bits key =
     (if bit bits 0 then shift_in v bits XOR ucast (drop_bit 1 key) else shift_in v bits)"

definition crc_step :: "16 word \<Rightarrow> bool \<Rightarrow> 16 word" where
  "crc_step w b = ((w AND 0xFFFE) XOR (if bit w 0 then 0x1020 else 0)) OR of_bool b"

definition crc_value :: "bool \<Rightarrow> 100 word \<Rightarrow> 16 word" where
  "crc_value v frame =
     (if parity (bits_msb frame) then 0x0810 else 0)
       OR (if bit frame (FRAME_SIZE - 1) \<noteq> v then 0x8000 else 0)"

text \<open>
  \<open>augment frame\<close> is the frame followed by \<open>CRC_SIZE\<close> zero bits, the value of
  \<^verbatim>\<open>temp\<close>; \<open>crc_state lsb p\<close> is the shape the register keeps during the loop: the
  bit last shifted in at position 0 and one more bit \<open>p\<close> at positions 5 and 12.
\<close>

definition augment :: "100 word \<Rightarrow> 116 word" where
  "augment frame = push_bit CRC_SIZE (ucast frame)"

definition crc_state :: "bool \<Rightarrow> bool \<Rightarrow> 16 word" where
  "crc_state lsb p = (if p then 0x1020 else 0) OR of_bool lsb"

section \<open>The reference: the remainder of a polynomial division over GF(2)\<close>

text \<open>
  The specification describes the check sequence as the remainder of the frame,
  followed by \<open>CRC_SIZE\<close> zero bits, divided by the generator polynomial with
  coefficients modulo 2. \<open>poly_rem gen msg\<close> is that long division on coefficient
  lists, highest power first: while the message is at least as long as the
  generator, subtract (exclusive-or) the generator from the front if the leading
  coefficient is set, and drop the leading coefficient.
\<close>

definition xor_into :: "bool list \<Rightarrow> bool list \<Rightarrow> bool list" where
  "xor_into gen msg = map2 (\<noteq>) gen (take (length gen) msg) @ drop (length gen) msg"

lemma length_xor_into [simp]: "length gen \<le> length msg \<Longrightarrow> length (xor_into gen msg) = length msg"
  by (simp add: xor_into_def)

function poly_rem :: "bool list \<Rightarrow> bool list \<Rightarrow> bool list" where
  "poly_rem gen msg =
     (if length msg < length gen \<or> gen = [] then msg
      else poly_rem gen (tl (if hd msg then xor_into gen msg else msg)))"
  by pat_completeness auto
termination
proof (relation "measure (\<lambda>(gen, msg). length msg)")
  fix gen msg :: "bool list"
  assume a: "\<not> (length msg < length gen \<or> gen = [])"
  then have "msg \<noteq> []" by auto
  with a show "((gen, tl (if hd msg then xor_into gen msg else msg)), gen, msg)
      \<in> measure (\<lambda>(gen, msg). length msg)"
    by (cases msg) auto
qed simp

declare poly_rem.simps [simp del]

definition spec_crc :: "100 word \<Rightarrow> 16 word" where
  "spec_crc frame = word_msb (poly_rem (bits_msb crcKey) (bits_msb frame @ replicate CRC_SIZE False))"

section \<open>The generator\<close>

lemma crcKey_value: "crcKey = 0x11021"
  by (simp add: crcKey_def bs_string_def word_msb_def)

lemma crcKey_powers: "crcKey = 2 ^ 16 OR 2 ^ 12 OR 2 ^ 5 OR 2 ^ 0"
  by (simp add: crcKey_value)

lemmas bit_powers = bit_or_iff bit_xor_iff bit_and_iff bit_exp_iff possible_bit_word

lemma bit_crcKey: "bit crcKey n \<longleftrightarrow> n = 0 \<or> n = 5 \<or> n = 12 \<or> n = 16"
  by (simp only: crcKey_powers bit_powers) auto

lemma bit_shift_in: "bit (shift_in v bits) n \<longleftrightarrow> (n < 15 \<and> bit bits (Suc n)) \<or> (n = 15 \<and> v)"
proof -
  have top: "(0x8000 :: 16 word) = 2 ^ 15" by simp
  have "bit (shift_in v bits) n \<longleftrightarrow> bit (drop_bit 1 bits) n \<or> (v \<and> bit (2 ^ 15 :: 16 word) n)"
    by (simp only: shift_in_def top bit_or_iff split: if_split) simp
  also have "\<dots> \<longleftrightarrow> (n < 15 \<and> bit bits (Suc n)) \<or> (n = 15 \<and> v)"
    by (simp only: bit_powers bit_drop_bit_eq) (auto dest: bit_imp_le_length)
  finally show ?thesis .
qed

lemma bit_crc_div:
  "bit (crc_div v bits key) n \<longleftrightarrow>
     n < 16 \<and> (bs_peek v bits (Suc n) \<noteq> (bit bits 0 \<and> bit key (Suc n)))"
  by (auto simp: crc_div_def bit_shift_in bs_peek_def bit_simps dest: bit_imp_le_length)

lemma div_loop_plain:
  "for_each [1..<CRC_SIZE + 1] (\<lambda>i result. do {
       b \<leftarrow> bs_read (Some v) bits i;
       bs_write result (i - 1) b }) (0 :: 16 word)
   = Some (fold (\<lambda>i w. bs_assign w (i - 1) (bs_peek v (bits :: 16 word) i)) [1..<CRC_SIZE + 1] 0)"
  by (simp only: bs_read_Some bind.bind_lunit, rule for_each_writes) (auto simp: CRC_SIZE_def)

lemma div_loop_xor:
  "for_each [1..<CRC_SIZE + 1] (\<lambda>i result. do {
       k \<leftarrow> bs_read (Some v) (key :: 17 word) i;
       b \<leftarrow> bs_read (Some v) (bits :: 16 word) i;
       bs_write result (i - 1) (k \<noteq> b) }) (0 :: 16 word)
   = Some (fold (\<lambda>i w. bs_assign w (i - 1) (bs_peek v key i \<noteq> bs_peek v bits i)) [1..<CRC_SIZE + 1] 0)"
  by (simp only: bs_read_Some bind.bind_lunit, rule for_each_writes) (auto simp: CRC_SIZE_def)

lemma bit_div_fold:
  assumes "n < 16"
  shows "bit (fold (\<lambda>i w. bs_assign w (i - 1) (f i)) [1..<CRC_SIZE + 1] (0 :: 16 word)) n = f (Suc n)"
proof -
  have "inj_on (\<lambda>i. i - 1) (set [1..<CRC_SIZE + 1])" by (auto simp: inj_on_def)
  moreover have "Suc n \<in> set [1..<CRC_SIZE + 1]" using assms by (simp add: CRC_SIZE_def)
  moreover have "Suc n - 1 < LENGTH(16)" using assms by simp
  ultimately have "bit (fold (\<lambda>i w. bs_assign w (i - 1) (f i)) [1..<CRC_SIZE + 1] (0 :: 16 word)) (Suc n - 1)
      = f (Suc n)"
    by (rule bit_fold_assign_hit)
  then show ?thesis by simp
qed

lemma crcDivision_unchecked: "crcDivision (Some v) bits key = Some (crc_div v bits key)"
proof (cases "bit bits 0")
  case True
  have "fold (\<lambda>i w. bs_assign w (i - 1) (bs_peek v key i \<noteq> bs_peek v bits i)) [1..<CRC_SIZE + 1] 0
      = crc_div v bits key"
  proof (rule bit_word_eqI)
    fix n assume "n < LENGTH(16)"
    then have n: "n < 16" by simp
    show "bit (fold (\<lambda>i w. bs_assign w (i - 1) (bs_peek v key i \<noteq> bs_peek v bits i))
        [1..<CRC_SIZE + 1] (0 :: 16 word)) n = bit (crc_div v bits key) n"
      unfolding bit_div_fold [OF n] bit_crc_div using n True by (auto simp: bs_peek_def)
  qed
  with True show ?thesis unfolding crcDivision_def div_loop_xor by simp
next
  case False
  have "fold (\<lambda>i w. bs_assign w (i - 1) (bs_peek v bits i)) [1..<CRC_SIZE + 1] 0 = crc_div v bits key"
  proof (rule bit_word_eqI)
    fix n assume "n < LENGTH(16)"
    then have n: "n < 16" by simp
    show "bit (fold (\<lambda>i w. bs_assign w (i - 1) (bs_peek v bits i))
        [1..<CRC_SIZE + 1] (0 :: 16 word)) n = bit (crc_div v bits key) n"
      unfolding bit_div_fold [OF n] bit_crc_div using n False by simp
  qed
  with False show ?thesis unfolding crcDivision_def div_loop_plain by simp
qed

lemma crcDivision_checked: "crcDivision None bits key = None"
proof -
  have a: "for_each [1..<CRC_SIZE + 1] (\<lambda>i result. do {
       b \<leftarrow> bs_read None (bits :: 16 word) i;
       bs_write result (i - 1) b }) (0 :: 16 word) = None"
    by (rule for_each_fails [where x = 16]) (simp_all add: CRC_SIZE_def)
  have b: "for_each [1..<CRC_SIZE + 1] (\<lambda>i result. do {
       k \<leftarrow> bs_read None (key :: 17 word) i;
       b \<leftarrow> bs_read None (bits :: 16 word) i;
       bs_write result (i - 1) (k \<noteq> b) }) (0 :: 16 word) = None"
    by (rule for_each_fails [where x = 16]) (simp_all add: CRC_SIZE_def)
  show ?thesis unfolding crcDivision_def a b by (simp split: bind_splits)
qed


section \<open>One round of the loop\<close>

lemma mask_FFFE: "(0xFFFE :: 16 word) = NOT (2 ^ 0)"
  by simp

lemma poly_1020: "(0x1020 :: 16 word) = 2 ^ 12 OR 2 ^ 5"
  by simp

lemma poly_0810: "(0x0810 :: 16 word) = 2 ^ 11 OR 2 ^ 4"
  by simp

lemma top_8000: "(0x8000 :: 16 word) = 2 ^ 15"
  by simp

lemma bit_crc_step:
  "bit (crc_step w b) n \<longleftrightarrow>
     n < 16 \<and> (if n = 0 then b else bit w n \<noteq> (bit w 0 \<and> (n = 5 \<or> n = 12)))"
proof -
  have "bit (crc_step w b) n \<longleftrightarrow>
      ((bit w n \<and> bit (NOT (2 ^ 0) :: 16 word) n) \<noteq> (bit w 0 \<and> bit (2 ^ 12 OR 2 ^ 5 :: 16 word) n))
        \<or> bit (of_bool b :: 16 word) n"
    by (simp only: crc_step_def mask_FFFE poly_1020 bit_or_iff bit_xor_iff bit_and_iff split: if_split)
      simp
  also have "\<dots> \<longleftrightarrow> n < 16 \<and> (if n = 0 then b else bit w n \<noteq> (bit w 0 \<and> (n = 5 \<or> n = 12)))"
    by (simp only: bit_powers bit_not_iff bit_of_bool_iff) (auto dest: bit_imp_le_length)
  finally show ?thesis .
qed

lemma crc_round_eq: "bs_assign (bs_shl (crc_div v w crcKey) 1) 0 b = crc_step w b"
proof (rule bit_word_eqI)
  fix n assume "n < LENGTH(16)"
  then have n: "n < 16" by simp
  show "bit (bs_assign (bs_shl (crc_div v w crcKey) 1) 0 b) n = bit (crc_step w b) n"
  proof (cases n)
    case 0
    then show ?thesis by (simp add: bit_bs_assign bit_crc_step)
  next
    case (Suc m)
    with n show ?thesis
      by (auto simp: bit_bs_assign bit_bs_shl bit_crc_div bit_crc_step bit_crcKey bs_peek_def)
  qed
qed

lemma crc_round_eq_Suc: "bs_assign (bs_shl (crc_div v w crcKey) (Suc 0)) 0 b = crc_step w b"
  using crc_round_eq [of v w b] by simp

lemma main_loop:
  "for_each [CRC_SIZE..<TOTAL_SIZE] (\<lambda>i working. do {
       working \<leftarrow> crcDivision (Some v) working crcKey;
       x \<leftarrow> bs_read (Some v) (temp :: 116 word) i;
       bs_set (bs_shl working 1) 0 x }) w
   = Some (fold (\<lambda>b w. crc_step w b) (map (bit temp) [CRC_SIZE..<TOTAL_SIZE]) w)"
proof -
  have "for_each [CRC_SIZE..<TOTAL_SIZE] (\<lambda>i working. do {
       working \<leftarrow> crcDivision (Some v) working crcKey;
       x \<leftarrow> bs_read (Some v) (temp :: 116 word) i;
       bs_set (bs_shl working 1) 0 x }) w
      = Some (fold (\<lambda>i w. crc_step w (bit temp i)) [CRC_SIZE..<TOTAL_SIZE] w)"
    by (rule for_each_total) (simp only: set_upt atLeastLessThan_iff,
        simp add: crcDivision_unchecked crc_round_eq_Suc size_defs)
  then show ?thesis by (simp add: fold_map comp_def)
qed

lemma main_loop_checked:
  "for_each [CRC_SIZE..<TOTAL_SIZE] (\<lambda>i working. do {
       working \<leftarrow> crcDivision None working crcKey;
       x \<leftarrow> bs_read None (temp :: 116 word) i;
       bs_set (bs_shl working 1) 0 x }) w = None"
  by (rule for_each_fails [where x = CRC_SIZE])
    (simp only: set_upt atLeastLessThan_iff, simp_all add: crcDivision_checked size_defs)

section \<open>The register during the loop\<close>

lemma bit_crc_state: "bit (crc_state lsb p) n \<longleftrightarrow> (n = 0 \<and> lsb) \<or> (p \<and> (n = 5 \<or> n = 12))"
proof -
  have "bit (crc_state lsb p) n \<longleftrightarrow> (p \<and> bit (2 ^ 12 OR 2 ^ 5 :: 16 word) n) \<or> bit (of_bool lsb :: 16 word) n"
    by (simp only: crc_state_def poly_1020 bit_or_iff split: if_split) simp
  also have "\<dots> \<longleftrightarrow> (n = 0 \<and> lsb) \<or> (p \<and> (n = 5 \<or> n = 12))"
    by (simp only: bit_powers bit_of_bool_iff) auto
  finally show ?thesis .
qed

lemma crc_state_init: "crc_state False False = 0"
  by (simp add: crc_state_def)

lemma crc_step_state: "crc_step (crc_state lsb p) b = crc_state b (p \<noteq> lsb)"
  by (rule bit_word_eqI) (auto simp: bit_crc_step bit_crc_state)

lemma fold_crc_step:
  "fold (\<lambda>b w. crc_step w b) bs (crc_state lsb p)
     = crc_state (last (lsb # bs)) (p \<noteq> parity (butlast (lsb # bs)))"
proof (induction bs arbitrary: lsb p)
  case Nil
  then show ?case by simp
next
  case (Cons b bs)
  have "(p \<noteq> lsb) \<noteq> parity (butlast (b # bs)) \<longleftrightarrow> p \<noteq> parity (butlast (lsb # b # bs))"
    by auto
  with Cons [of b "p \<noteq> lsb"] show ?case by (simp add: crc_step_state)
qed

lemma crc_div_state:
  "crc_div v (crc_state lsb p) crcKey
     = (if p \<noteq> lsb then 0x0810 else 0) OR (if lsb \<noteq> v then 0x8000 else 0)"
proof (rule bit_word_eqI)
  fix n assume "n < LENGTH(16)"
  then have n: "n < 16" by simp
  have "bit ((if p \<noteq> lsb then 0x0810 else 0) OR (if lsb \<noteq> v then 0x8000 else 0) :: 16 word) n
      \<longleftrightarrow> ((p \<noteq> lsb) \<and> bit (2 ^ 11 OR 2 ^ 4 :: 16 word) n) \<or> ((lsb \<noteq> v) \<and> bit (2 ^ 15 :: 16 word) n)"
    by (simp only: poly_0810 top_8000 bit_or_iff split: if_split) simp
  also have "\<dots> \<longleftrightarrow> ((p \<noteq> lsb) \<and> (n = 11 \<or> n = 4)) \<or> ((lsb \<noteq> v) \<and> n = 15)"
    using n by (simp only: bit_powers) auto
  finally show "bit (crc_div v (crc_state lsb p) crcKey) n
      = bit ((if p \<noteq> lsb then 0x0810 else 0) OR (if lsb \<noteq> v then 0x8000 else 0) :: 16 word) n"
    using n by (auto simp: bit_crc_div bit_crc_state bit_crcKey bs_peek_def)
qed


section \<open>The augmented frame\<close>

lemma bit_augment: "bit (augment frame) n \<longleftrightarrow> CRC_SIZE \<le> n \<and> n < TOTAL_SIZE \<and> bit frame (n - CRC_SIZE)"
  by (auto simp: augment_def bit_simps size_defs)

lemma temp_loop:
  "for_each [0..<FRAME_SIZE] (\<lambda>i temp. do {
       v \<leftarrow> bs_read oob (frame :: 100 word) (FRAME_SIZE - 1 - i);
       bs_write (temp :: 116 word) (TOTAL_SIZE - 1 - i) v }) 0
   = Some (augment frame)"
proof -
  let ?g = "\<lambda>i. TOTAL_SIZE - 1 - i" and ?f = "\<lambda>i. bit frame (FRAME_SIZE - 1 - i)"
  let ?w = "fold (\<lambda>i w. bs_assign w (?g i) (?f i)) [0..<FRAME_SIZE] (0 :: 116 word)"
  have "for_each [0..<FRAME_SIZE] (\<lambda>i temp. do {
       v \<leftarrow> bs_read oob frame (FRAME_SIZE - 1 - i);
       bs_write (temp :: 116 word) (TOTAL_SIZE - 1 - i) v }) 0
     = for_each [0..<FRAME_SIZE] (\<lambda>i temp. bs_write temp (?g i) (?f i)) 0"
    by (rule for_each_cong) (simp add: size_defs)
  also have "\<dots> = Some ?w"
    by (rule for_each_writes) (simp add: size_defs)
  also have "?w = augment frame"
  proof (rule bit_word_eqI)
    fix n assume "n < LENGTH(116)"
    then have n: "n < TOTAL_SIZE" by (simp add: size_defs)
    have inj: "inj_on ?g (set [0..<FRAME_SIZE])" by (auto simp: inj_on_def size_defs)
    show "bit ?w n = bit (augment frame) n"
    proof (cases "CRC_SIZE \<le> n")
      case True
      with n have mem: "TOTAL_SIZE - 1 - n \<in> set [0..<FRAME_SIZE]" and g: "?g (TOTAL_SIZE - 1 - n) = n"
        by (simp_all add: size_defs)
      from bit_fold_assign_hit [OF inj mem, where f = ?f and w = "0 :: 116 word"] g n
      have "bit ?w n = ?f (TOTAL_SIZE - 1 - n)" by (simp add: size_defs)
      with True n show ?thesis by (simp add: bit_augment size_defs)
    next
      case False
      then have "n \<notin> ?g ` set [0..<FRAME_SIZE]" by (auto simp: size_defs)
      then have "bit ?w n = bit (0 :: 116 word) n" by (rule bit_fold_assign_other)
      with False show ?thesis by (simp add: bit_augment)
    qed
  qed
  finally show ?thesis .
qed

lemma init_loop:
  "for_each [0..<CRC_SIZE] (\<lambda>i working. do {
       v \<leftarrow> bs_read oob (temp :: 116 word) i;
       bs_write (working :: 16 word) i v }) 0
   = Some (ucast temp)"
proof -
  let ?w = "fold (\<lambda>i w. bs_assign w i (bit temp i)) [0..<CRC_SIZE] (0 :: 16 word)"
  have "for_each [0..<CRC_SIZE] (\<lambda>i working. do {
       v \<leftarrow> bs_read oob temp i;
       bs_write (working :: 16 word) i v }) 0
     = for_each [0..<CRC_SIZE] (\<lambda>i working. bs_write working i (bit temp i)) 0"
    by (rule for_each_cong) (simp add: size_defs)
  also have "\<dots> = Some ?w"
    by (rule for_each_writes [where g = "\<lambda>i. i"]) (simp add: size_defs)
  also have "?w = ucast temp"
  proof (rule bit_word_eqI)
    fix n assume "n < LENGTH(16)"
    then have mem: "n \<in> set [0..<CRC_SIZE]" by (simp add: size_defs)
    from bit_fold_assign_hit [where g = "\<lambda>i. i" and f = "bit temp" and w = "0 :: 16 word", OF _ mem]
    have "bit ?w n = bit temp n" using \<open>n < LENGTH(16)\<close> by simp
    then show "bit ?w n = bit (ucast temp :: 16 word) n"
      using \<open>n < LENGTH(16)\<close> by (simp add: bit_simps)
  qed
  finally show ?thesis .
qed

lemma ucast_augment: "(ucast (augment frame) :: 16 word) = 0"
  by (rule bit_word_eqI) (simp add: bit_simps bit_augment size_defs)

lemma input_bits: "map (bit (augment frame)) [CRC_SIZE..<TOTAL_SIZE] = rev (bits_msb frame)"
proof -
  have "[CRC_SIZE..<TOTAL_SIZE] = map (\<lambda>j. j + CRC_SIZE) [0..<FRAME_SIZE]"
    by (simp add: map_add_upt size_defs)
  then have "map (bit (augment frame)) [CRC_SIZE..<TOTAL_SIZE] = map (bit frame) [0..<FRAME_SIZE]"
    by (simp add: bit_augment size_defs)
  then show ?thesis by (simp add: bits_msb_def rev_map size_defs)
qed

section \<open>The check sequence of one frame\<close>

lemma last_input_bit: "last (False # rev (bits_msb (frame :: 100 word))) = bit frame (FRAME_SIZE - 1)"
proof -
  have "bits_msb frame \<noteq> []" by (simp add: bits_msb_def)
  then show ?thesis by (simp add: last_rev hd_conv_nth nth_bits_msb size_defs)
qed

lemma run_register:
  "fold (\<lambda>b w. crc_step w b) (rev (bits_msb (frame :: 100 word))) 0
     = crc_state (bit frame (FRAME_SIZE - 1)) (parity (bits_msb frame) \<noteq> bit frame (FRAME_SIZE - 1))"
proof -
  let ?bs = "rev (bits_msb frame)"
  have ne: "?bs \<noteq> []" by (simp add: bits_msb_def)
  then have "parity ?bs = (parity (butlast ?bs) \<noteq> last ?bs)"
    by (metis append_butlast_last_id parity.simps parity_append)
  moreover have "last ?bs = bit frame (FRAME_SIZE - 1)"
    using last_input_bit [of frame] ne by simp
  ultimately have p: "parity (butlast (False # ?bs)) = (parity (bits_msb frame) \<noteq> bit frame (FRAME_SIZE - 1))"
    using ne by auto
  have "fold (\<lambda>b w. crc_step w b) ?bs (crc_state False False)
      = crc_state (last (False # ?bs)) (False \<noteq> parity (butlast (False # ?bs)))"
    by (rule fold_crc_step)
  then show ?thesis by (simp only: crc_state_init last_input_bit p) simp
qed

lemma crc_frame_unchecked: "crc_frame (Some v) frame = Some (crc_value v frame)"
proof -
  have "crc_frame (Some v) frame
      = Some (crc_div v (fold (\<lambda>b w. crc_step w b) (rev (bits_msb frame)) 0) crcKey)"
    unfolding crc_frame_def temp_loop init_loop bind.bind_lunit main_loop
    unfolding crcDivision_unchecked ucast_augment input_bits ..
  then show ?thesis
    by (auto simp: run_register crc_div_state crc_value_def)
qed

lemma crc_frame_checked: "crc_frame None frame = None"
  unfolding crc_frame_def temp_loop init_loop bind.bind_lunit main_loop_checked by simp

section \<open>What the check sequence detects\<close>

lemma bit_crc_value:
  "bit (crc_value v frame) n \<longleftrightarrow>
     (parity (bits_msb frame) \<and> (n = 4 \<or> n = 11)) \<or> ((bit frame (FRAME_SIZE - 1) \<noteq> v) \<and> n = 15)"
proof -
  have "bit (crc_value v frame) n \<longleftrightarrow>
      (parity (bits_msb frame) \<and> bit (2 ^ 11 OR 2 ^ 4 :: 16 word) n)
        \<or> ((bit frame (FRAME_SIZE - 1) \<noteq> v) \<and> bit (2 ^ 15 :: 16 word) n)"
    by (simp only: crc_value_def poly_0810 top_8000 bit_or_iff split: if_split) simp
  also have "\<dots> \<longleftrightarrow> (parity (bits_msb frame) \<and> (n = 4 \<or> n = 11))
        \<or> ((bit frame (FRAME_SIZE - 1) \<noteq> v) \<and> n = 15)"
    by (simp only: bit_powers) auto
  finally show ?thesis .
qed

lemma bits_msb_flip_bit:
  assumes "i < LENGTH('a)"
  shows "bits_msb (flip_bit i (w :: 'a::len word))
    = (bits_msb w)[LENGTH('a) - 1 - i := \<not> bit w i]"
proof (rule nth_equalityI)
  show "length (bits_msb (flip_bit i w)) = length ((bits_msb w)[LENGTH('a) - 1 - i := \<not> bit w i])"
    by simp
  fix k assume "k < length (bits_msb (flip_bit i w))"
  then have k: "k < LENGTH('a)" by simp
  show "bits_msb (flip_bit i w) ! k = (bits_msb w)[LENGTH('a) - 1 - i := \<not> bit w i] ! k"
  proof (cases "k = LENGTH('a) - 1 - i")
    case True
    with assms k show ?thesis by (simp add: nth_bits_msb bit_flip_bit_iff)
  next
    case False
    with assms k have "LENGTH('a) - 1 - k \<noteq> i" by auto
    with False k show ?thesis by (auto simp: nth_bits_msb bit_flip_bit_iff)
  qed
qed

lemma parity_flip_bit:
  "i < LENGTH('a) \<Longrightarrow> parity (bits_msb (flip_bit i (w :: 'a::len word))) = (\<not> parity (bits_msb w))"
  by (simp add: bits_msb_flip_bit parity_list_update nth_bits_msb)

lemma crc_value_flip:
  assumes "i < FRAME_SIZE"
  shows "crc_value v (flip_bit i frame) \<noteq> crc_value v frame"
proof
  assume "crc_value v (flip_bit i frame) = crc_value v frame"
  then have "bit (crc_value v (flip_bit i frame)) 4 = bit (crc_value v frame) 4" by simp
  with assms show False by (simp add: bit_crc_value parity_flip_bit FRAME_SIZE_def)
qed

lemma crc_value_flip2:
  assumes "i < FRAME_SIZE - 1" and "j < FRAME_SIZE - 1"
  shows "crc_value v (flip_bit i (flip_bit j frame)) = crc_value v frame"
  using assms
  by (intro bit_word_eqI) (auto simp: bit_crc_value parity_flip_bit bit_flip_bit_iff FRAME_SIZE_def)

lemma calculateCRC_unchecked: "calculateCRC (Some v) frames = Some (map (crc_value v) frames)"
proof -
  have "calculateCRC (Some v) frames = Some ([] @ map (crc_value v) frames)"
    unfolding calculateCRC_def by (rule for_each_push) (simp add: crc_frame_unchecked)
  then show ?thesis by simp
qed

lemma calculateCRC_checked: "calculateCRC None frames = (if frames = [] then Some [] else None)"
proof (cases frames)
  case Nil
  then show ?thesis by (simp add: calculateCRC_def)
next
  case (Cons frame rest)
  have "calculateCRC None frames = None"
    unfolding calculateCRC_def by (rule for_each_push_fails [where x = frame]) (simp_all add: Cons crc_frame_checked)
  with Cons show ?thesis by simp
qed

lemma crc_value_zero: "crc_value False 0 = 0"
  by (simp add: crc_value_def)

section \<open>Values of the reference\<close>

lemma poly_rem_short: "length msg < length gen \<Longrightarrow> poly_rem gen msg = msg"
  by (subst poly_rem.simps) simp

lemma poly_rem_False:
  "length gen \<le> Suc (length msg) \<Longrightarrow> gen \<noteq> [] \<Longrightarrow> poly_rem gen (False # msg) = poly_rem gen msg"
  by (subst poly_rem.simps) simp

lemma poly_rem_True:
  "length gen \<le> Suc (length msg) \<Longrightarrow> gen \<noteq> [] \<Longrightarrow>
   poly_rem gen (True # msg) = poly_rem gen (tl (xor_into gen (True # msg)))"
  by (subst poly_rem.simps) simp

lemma poly_rem_zeros:
  "length gen \<le> Suc (length msg) \<Longrightarrow> gen \<noteq> [] \<Longrightarrow> poly_rem gen (replicate k False @ msg) = poly_rem gen (False # msg)"
  by (induction k) (simp_all add: poly_rem_False)

lemma length_poly_rem: "gen \<noteq> [] \<Longrightarrow> length gen \<le> Suc (length msg) \<Longrightarrow> length (poly_rem gen msg) = length gen - 1"
proof (induction gen msg rule: poly_rem.induct)
  case (1 gen msg)
  show ?case
  proof (cases "length msg < length gen")
    case True
    with 1 show ?thesis by (simp add: poly_rem_short)
  next
    case False
    with "1.prems" have "length (tl (if hd msg then xor_into gen msg else msg)) = length msg - 1"
      by simp
    with False 1 show ?thesis
      by (subst poly_rem.simps) (cases msg, auto)
  qed
qed

lemma bits_msb_crcKey: "bits_msb crcKey = map (\<lambda>c. c = CHR ''1'') ''10001000000100001''"
  unfolding crcKey_def bs_string_def by (subst bits_msb_word_msb) simp_all

lemma bits_msb_one: "bits_msb (1 :: 'a::len word) = replicate (LENGTH('a) - 1) False @ [True]"
  by (rule nth_equalityI) (auto simp: nth_bits_msb nth_append bit_1_iff)

lemma spec_crc_one: "spec_crc 1 = 0x1021"
proof -
  let ?gen = "bits_msb crcKey"
  have gen: "length ?gen = 17" "?gen \<noteq> []" by (simp_all add: bits_msb_def)
  have "poly_rem ?gen (bits_msb (1 :: 100 word) @ replicate CRC_SIZE False)
      = poly_rem ?gen (replicate 99 False @ (True # replicate 16 False))"
    by (simp add: bits_msb_one CRC_SIZE_def)
  also have "\<dots> = poly_rem ?gen (False # True # replicate 16 False)"
    using gen by (intro poly_rem_zeros) simp_all
  also have "\<dots> = poly_rem ?gen (True # replicate 16 False)"
    using gen by (intro poly_rem_False) simp_all
  also have "\<dots> = poly_rem ?gen (tl (xor_into ?gen (True # replicate 16 False)))"
    using gen by (intro poly_rem_True) simp_all
  also have "\<dots> = tl (xor_into ?gen (True # replicate 16 False))"
    using gen by (intro poly_rem_short) simp
  finally show ?thesis
    by (simp add: spec_crc_def bits_msb_crcKey xor_into_def word_msb_def numeral_eq_Suc)
qed

lemma spec_crc_zero: "spec_crc 0 = 0"
proof -
  let ?gen = "bits_msb crcKey"
  have gen: "length ?gen = 17" "?gen \<noteq> []" by (simp_all add: bits_msb_def)
  have "poly_rem ?gen (bits_msb (0 :: 100 word) @ replicate CRC_SIZE False)
      = poly_rem ?gen (replicate 100 False @ replicate 16 False)"
    by (simp add: CRC_SIZE_def)
  also have "\<dots> = poly_rem ?gen (False # replicate 16 False)"
    using gen by (intro poly_rem_zeros) simp_all
  also have "\<dots> = poly_rem ?gen (replicate 16 False)"
    using gen by (intro poly_rem_False) simp_all
  also have "\<dots> = replicate 16 False"
    using gen by (intro poly_rem_short) simp
  finally show ?thesis by (simp add: spec_crc_def)
qed

section \<open>Properties of the check-sequence engine\<close>

text \<open>
  C7: \<^verbatim>\<open>crcDivision\<close> subscripts its \<^verbatim>\<open>bitset<16>\<close> argument at position 16. Where
  an out-of-range subscript stops the program, every call of it does.
\<close>

theorem crcDivision_reads_past_end:
  "crcDivision None bits key = None"
  by (rule crcDivision_checked)

text \<open>
  C24: where the out-of-range read goes through and sees \<open>v\<close>, \<^verbatim>\<open>crcDivision\<close> returns
  the register moved one place down with \<open>v\<close> at the top, exclusive-ored with the
  upper sixteen bits of the key when bit 0 of the register was set. The bit it
  tests is the lowest one, not the one a left-shifting division would test.
\<close>

theorem crcDivision_closed_form:
  "crcDivision (Some v) bits key = Some (crc_div v bits key)"
  by (rule crcDivision_unchecked)

text \<open>
  One round of the loop of \<^verbatim>\<open>calculateCRC\<close> (divide, shift left, set bit 0)
  does not depend on what the out-of-range read saw: the bit it brought in is
  shifted out again. The round keeps bits 1 to 15, flips bits 5 and 12 when bit 0
  was set, and stores the next message bit at position 0.
\<close>

theorem crc_round_ignores_oob:
  "Option.bind (crcDivision (Some v) w crcKey) (\<lambda>r. bs_set (bs_shl r 1) 0 b) = Some (crc_step w b)"
  using crc_round_eq [of v w b] by (simp add: crcDivision_unchecked)

text \<open>
  C1: the value \<^verbatim>\<open>calculateCRC\<close> computes for a frame is determined by two bits of
  information: the parity of the frame (at bits 4 and 11) and its first bit (at
  bit 15, exclusive-ored with what the out-of-range read saw). All other bits of
  the result are zero.
\<close>

theorem crc_frame_is_parity:
  "crc_frame (Some v) frame = Some (crc_value v frame)"
  by (rule crc_frame_unchecked)

text \<open>C28: \<^verbatim>\<open>calculateCRC\<close> returns one value per frame, in the order of the frames.\<close>

theorem calculateCRC_values:
  "calculateCRC (Some v) frames = Some (map (crc_value v) frames)"
  by (rule calculateCRC_unchecked)

text \<open>
  C28: where an out-of-range subscript stops the program, \<^verbatim>\<open>calculateCRC\<close> completes
  only for an empty list of frames.
\<close>

theorem calculateCRC_traps:
  "calculateCRC None frames = (if frames = [] then Some [] else None)"
  by (rule calculateCRC_checked)

text \<open>The all-zero frame has check sequence zero.\<close>

theorem crc_zero_frame:
  "crc_frame (Some False) 0 = Some 0"
  by (simp add: crc_frame_unchecked crc_value_zero)

text \<open>C25: inverting any single bit of a frame changes its check sequence.\<close>

theorem crc_detects_single_flip:
  "i < FRAME_SIZE \<Longrightarrow> crc_frame (Some v) (flip_bit i frame) \<noteq> crc_frame (Some v) frame"
  by (simp add: crc_frame_unchecked crc_value_flip)

theorem crc_detects_single_flip_witness:
  "(99 :: nat) < FRAME_SIZE \<and> crc_frame (Some False) (flip_bit 99 0) \<noteq> crc_frame (Some False) 0"
  using crc_detects_single_flip [of 99 False 0] by (simp add: FRAME_SIZE_def)

text \<open>
  Inverting two bits of a frame, neither of them the first, leaves the check
  sequence unchanged: no such double error is detected.
\<close>

theorem crc_misses_double_flip:
  "i < FRAME_SIZE - 1 \<Longrightarrow> j < FRAME_SIZE - 1 \<Longrightarrow>
   crc_frame (Some v) (flip_bit i (flip_bit j frame)) = crc_frame (Some v) frame"
  by (simp add: crc_frame_unchecked crc_value_flip2)

theorem crc_misses_double_flip_witness:
  "(0 :: nat) < FRAME_SIZE - 1 \<and> (1 :: nat) < FRAME_SIZE - 1
   \<and> flip_bit 0 (flip_bit 1 (0 :: 100 word)) \<noteq> 0
   \<and> crc_frame (Some False) (flip_bit 0 (flip_bit 1 0)) = crc_frame (Some False) 0"
  using crc_misses_double_flip [of 0 1 False 0] by (simp add: FRAME_SIZE_def)


end
