(* ===== verification/CrcContract.thy ===== *)
theory CrcContract
  imports CrcEngine
begin

text \<open>
  The check sequence that the specification promises, \<open>spec_crc\<close>, studied on its
  own and set against the value that the code computes.

  \<^item> \<open>crc_shift r b\<close> is one step of the division on a 16-bit register: shift the
    register up by one, take \<open>b\<close> in at the bottom, and subtract the generator when
    the bit shifted out was set. \<open>crc_register bs r\<close> feeds the bits \<open>bs\<close> to the
    register \<open>r\<close>. The remainder of the long division is the register after the
    whole message (\<open>spec_crc_register\<close>).
  \<^item> The remainder is linear (\<open>spec_crc_xor\<close>), so whether an error is detected
    depends on the error alone.
  \<^item> It detects every error of one bit, since the generator has the constant term
    \<open>1\<close>, and every error of two bits in a frame, since the powers of \<open>x\<close> from
    \<open>x\<^sup>1\<close> to \<open>x\<^sup>9\<^sup>9\<close> are not \<open>1\<close> modulo the generator (\<open>orbit\<close> lists them).

  The round of the code, \<open>crc_step\<close>, does not shift and tests the lowest bit;
  the value it leaves is a parity, which no error of two bits changes.
\<close>

section \<open>The division as a shift register\<close>

definition crc_shift :: "16 word \<Rightarrow> bool \<Rightarrow> 16 word" where
  "crc_shift r b = (push_bit 1 r OR of_bool b) XOR (if bit r 15 then 0x1021 else 0)"

definition crc_register :: "bool list \<Rightarrow> 16 word \<Rightarrow> 16 word" where
  "crc_register bs r = fold (\<lambda>b r. crc_shift r b) bs r"

fun orbit :: "nat \<Rightarrow> 16 word \<Rightarrow> 16 word list" where
  "orbit 0 r = []"
| "orbit (Suc n) r = r # orbit n (crc_shift r False)"

lemma crc_register_simps [simp]:
  "crc_register [] r = r"
  "crc_register (b # bs) r = crc_register bs (crc_shift r b)"
  "crc_register (bs @ cs) r = crc_register cs (crc_register bs r)"
  by (simp_all add: crc_register_def)

section \<open>Lists of bits and words\<close>

lemma map2_bits_msb: "map2 (\<noteq>) (bits_msb v) (bits_msb w) = bits_msb (v XOR w)"
  by (rule nth_equalityI) (simp_all add: nth_bits_msb bit_xor_iff)

lemma hd_bits_msb: "hd (bits_msb (w :: 16 word)) = bit w 15"
proof -
  have "bits_msb w \<noteq> []" by (simp add: bits_msb_def)
  then show ?thesis by (simp add: hd_conv_nth nth_bits_msb)
qed

lemma tl_bits_msb_snoc:
  "tl (bits_msb (w :: 16 word)) @ [b] = bits_msb (push_bit 1 w OR of_bool b)"
  by (rule nth_equalityI)
    (auto simp: nth_append nth_tl nth_bits_msb bit_or_iff bit_of_bool_iff bit_double_iff
      mult.commute [of w 2])

lemma bits_msb_generator: "bits_msb crcKey = True # bits_msb (0x1021 :: 16 word)"
proof -
  let ?low = "map (\<lambda>c. c = CHR ''1'') ''0001000000100001''"
  have low: "word_msb ?low = (0x1021 :: 16 word)"
    by (simp add: word_msb_def)
  have "bits_msb (word_msb ?low :: 16 word) = ?low"
    by (rule bits_msb_word_msb) simp
  then show ?thesis unfolding low by (simp add: bits_msb_crcKey)
qed

lemma bits_msb_nonempty [simp]: "bits_msb w \<noteq> []"
  by (simp add: bits_msb_def)

section \<open>The remainder is the register\<close>

text \<open>One step of the long division on a message that starts with the register.\<close>

lemma division_step:
  "tl (if hd (bits_msb w @ b # bs) then xor_into (bits_msb crcKey) (bits_msb w @ b # bs)
       else bits_msb w @ b # bs)
   = bits_msb (crc_shift w b) @ bs" for w :: "16 word"
proof (cases "bit w 15")
  case False
  have "tl (bits_msb w @ b # bs) = (tl (bits_msb w) @ [b]) @ bs" by simp
  also have "\<dots> = bits_msb (push_bit 1 w OR of_bool b) @ bs" by (simp only: tl_bits_msb_snoc)
  finally show ?thesis using False by (simp add: hd_append hd_bits_msb crc_shift_def)
next
  case True
  then have cells: "bits_msb w = True # tl (bits_msb w)"
    using hd_bits_msb [of w] by (cases "bits_msb w") simp_all
  have "xor_into (bits_msb crcKey) (bits_msb w @ b # bs)
      = map2 (\<noteq>) (bits_msb crcKey) (bits_msb w @ [b]) @ bs"
    by (simp add: xor_into_def)
  also have "map2 (\<noteq>) (bits_msb crcKey) (bits_msb w @ [b])
      = False # map2 (\<noteq>) (bits_msb (0x1021 :: 16 word)) (tl (bits_msb w) @ [b])"
    by (subst cells) (simp add: bits_msb_generator)
  also have "tl (bits_msb w) @ [b] = bits_msb (push_bit 1 w OR of_bool b)"
    by (rule tl_bits_msb_snoc)
  finally have "tl (xor_into (bits_msb crcKey) (bits_msb w @ b # bs))
      = bits_msb (0x1021 XOR (push_bit 1 w OR of_bool b)) @ bs"
    by (simp only: list.sel append_Cons map2_bits_msb)
  with True show ?thesis
    by (simp add: hd_append hd_bits_msb crc_shift_def xor.commute)
qed

lemma poly_rem_register:
  "poly_rem (bits_msb crcKey) (bits_msb w @ bs) = bits_msb (crc_register bs w)" for w :: "16 word"
proof (induction bs arbitrary: w)
  case Nil
  show ?case by (simp add: poly_rem_short)
next
  case (Cons b bs)
  have long: "\<not> (length (bits_msb w @ b # bs) < length (bits_msb crcKey) \<or> bits_msb crcKey = [])"
    by simp
  have "poly_rem (bits_msb crcKey) (bits_msb w @ b # bs)
      = poly_rem (bits_msb crcKey) (bits_msb (crc_shift w b) @ bs)"
    by (subst poly_rem.simps) (simp only: long if_False division_step)
  with Cons show ?case by simp
qed

lemma spec_crc_register:
  "spec_crc frame = crc_register (bits_msb frame @ replicate CRC_SIZE False) 0"
proof -
  let ?gen = "bits_msb crcKey"
  let ?msg = "bits_msb frame @ replicate CRC_SIZE False"
  have "poly_rem ?gen (replicate 16 False @ ?msg) = poly_rem ?gen (False # ?msg)"
    by (rule poly_rem_zeros) simp_all
  also have "\<dots> = poly_rem ?gen ?msg"
    by (rule poly_rem_False) simp_all
  finally have "poly_rem ?gen ?msg = bits_msb (crc_register ?msg 0)"
    using poly_rem_register [of 0 ?msg] by simp
  then show ?thesis by (simp add: spec_crc_def)
qed

section \<open>Linearity\<close>

lemma crc_shift_alt:
  "crc_shift r b = 2 * r XOR of_bool b XOR (if bit r 15 then 0x1021 else 0)"
proof -
  have double: "push_bit 1 r = 2 * r" by simp
  have "2 * r OR of_bool b = 2 * r XOR of_bool b"
    by (rule bit_word_eqI) (auto simp: bit_or_iff bit_xor_iff bit_of_bool_iff bit_double_iff)
  then show ?thesis unfolding crc_shift_def double by (simp only: xor.assoc)
qed

lemma double_xor: "2 * (r XOR s) = 2 * r XOR 2 * s" for r s :: "'a::len word"
  by (rule bit_word_eqI) (auto simp: bit_xor_iff bit_double_iff)

lemma crc_shift_xor: "crc_shift (r XOR s) (a = (\<not> b)) = crc_shift r a XOR crc_shift s b"
proof -
  have "of_bool (a = (\<not> b)) = (of_bool a XOR of_bool b :: 16 word)"
    by (cases a; cases b) simp_all
  then show ?thesis
    by (simp add: crc_shift_alt double_xor bit_xor_iff xor.assoc xor.left_commute)
qed

lemma crc_register_xor:
  "length xs = length ys \<Longrightarrow>
   crc_register (map2 (\<noteq>) xs ys) (r XOR s) = crc_register xs r XOR crc_register ys s"
  by (induction xs ys arbitrary: r s rule: list_induct2) (simp_all add: crc_shift_xor)

lemma map2_append_same:
  "length xs = length ys \<Longrightarrow> map2 f (xs @ zs) (ys @ zs') = map2 f xs ys @ map2 f zs zs'"
  by simp

lemma spec_crc_xor: "spec_crc (v XOR w) = spec_crc v XOR spec_crc w"
proof -
  let ?pad = "replicate CRC_SIZE False"
  have "map2 (\<noteq>) ?pad ?pad = ?pad"
    by (rule nth_equalityI) simp_all
  then have "bits_msb (v XOR w) @ ?pad = map2 (\<noteq>) (bits_msb v @ ?pad) (bits_msb w @ ?pad)"
    by (simp only: map2_append_same length_bits_msb map2_bits_msb)
  with crc_register_xor [of "bits_msb v @ ?pad" "bits_msb w @ ?pad" 0 0] show ?thesis
    by (simp add: spec_crc_register)
qed

section \<open>The register on zeros\<close>

text \<open>
  Feeding a zero is multiplication by \<open>x\<close> modulo the generator. It can be undone,
  since the generator has the constant term \<open>1\<close>: the lowest bit of the result
  tells whether the generator was subtracted.
\<close>

lemma crc_shift_zero [simp]: "crc_shift 0 False = 0" "crc_shift 0 True = 1"
  by (simp_all add: crc_shift_alt)

lemma bit_crc_shift_0: "bit (crc_shift r False) 0 \<longleftrightarrow> bit r 15"
  by (simp add: crc_shift_alt bit_xor_iff bit_double_iff)

lemma crc_shift_inject:
  assumes "crc_shift r False = crc_shift s False"
  shows "r = s"
proof (rule bit_word_eqI)
  fix n assume "n < LENGTH(16)"
  from assms have top: "bit r 15 \<longleftrightarrow> bit s 15"
    using bit_crc_shift_0 [of r] bit_crc_shift_0 [of s] by simp
  with assms have "2 * r XOR 0x1021 = 2 * s XOR 0x1021 \<or> 2 * r = 2 * s"
    by (simp add: crc_shift_alt split: if_splits)
  then have "2 * r = 2 * s" by (auto simp: xor_cancel_right)
  then have "bit (2 * r) (Suc n) \<longleftrightarrow> bit (2 * s) (Suc n)" by simp
  with top \<open>n < LENGTH(16)\<close> show "bit r n \<longleftrightarrow> bit s n"
    by (cases "n = 15") (simp_all add: bit_double_iff)
qed

lemma crc_register_zeros_inject:
  "crc_register (replicate k False) r = crc_register (replicate k False) s \<longleftrightarrow> r = s"
  by (induction k arbitrary: r s) (auto dest: crc_shift_inject)

lemma crc_register_zeros_0 [simp]: "crc_register (replicate k False) 0 = 0"
  by (induction k) simp_all

lemma crc_register_zeros_nonzero: "r \<noteq> 0 \<Longrightarrow> crc_register (replicate k False) r \<noteq> 0"
  using crc_register_zeros_inject [of k r 0] by simp

section \<open>The powers of \<open>x\<close>\<close>

text \<open>
  \<open>orbit n r\<close> lists \<open>r, x r, x\<^sup>2 r, ...\<close> modulo the generator, \<open>n\<close> values in all. The
  first 99 powers of \<open>x\<close> after \<open>x\<^sup>0\<close> are computed, and none of them is \<open>1\<close>.
\<close>

lemma orbit_numeral:
  "orbit (numeral k) r = r # orbit (pred_numeral k) (crc_shift r False)"
  by (simp add: numeral_eq_Suc)

lemma orbit_99: "1 \<notin> set (orbit 99 (crc_shift 1 False))"
  by (simp add: orbit_numeral crc_shift_alt)

lemma orbit_member: "k < n \<Longrightarrow> crc_register (replicate k False) r \<in> set (orbit n r)"
proof (induction n arbitrary: k r)
  case (Suc n)
  then show ?case by (cases k) simp_all
qed simp

lemma power_not_one:
  assumes "0 < d" and "d < 100"
  shows "crc_register (replicate d False) 1 \<noteq> 1"
proof -
  from assms obtain k where d: "d = Suc k" and "k < 99" by (cases d) auto
  from \<open>k < 99\<close> have "crc_register (replicate k False) (crc_shift 1 False)
      \<in> set (orbit 99 (crc_shift 1 False))"
    by (rule orbit_member)
  with orbit_99 have "crc_register (replicate k False) (crc_shift 1 False) \<noteq> 1"
    by metis
  then show ?thesis unfolding d by simp
qed

lemma powers_distinct:
  assumes "i < j" and "j < i + 100"
  shows "crc_register (replicate i False) 1 \<noteq> crc_register (replicate j False) 1"
proof
  assume eq: "crc_register (replicate i False) 1 = crc_register (replicate j False) 1"
  from assms have d: "0 < j - i" "j - i < 100" by simp_all
  from assms have "replicate j False = replicate (j - i) False @ replicate i False"
    by (simp add: replicate_add [symmetric])
  with eq have "crc_register (replicate (j - i) False) 1 = 1"
    by (simp add: crc_register_zeros_inject)
  with power_not_one [OF d] show False by simp
qed

lemma bits_msb_power:
  assumes "i < LENGTH('a)"
  shows "bits_msb (2 ^ i :: 'a::len word)
     = replicate (LENGTH('a) - 1 - i) False @ True # replicate i False"
proof (rule nth_equalityI)
  from assms show "length (bits_msb (2 ^ i :: 'a word))
      = length (replicate (LENGTH('a) - 1 - i) False @ True # replicate i False)"
    by simp
next
  fix n assume "n < length (bits_msb (2 ^ i :: 'a word))"
  with assms have "LENGTH('a) - 1 - n = i \<longleftrightarrow> n = LENGTH('a) - 1 - i" by auto
  with assms \<open>n < length (bits_msb (2 ^ i :: 'a word))\<close>
  show "bits_msb (2 ^ i :: 'a word) ! n
      = (replicate (LENGTH('a) - 1 - i) False @ True # replicate i False) ! n"
    by (auto simp: nth_bits_msb nth_append nth_Cons' bit_exp_iff)
qed

lemma spec_crc_power:
  assumes "i < FRAME_SIZE"
  shows "spec_crc (2 ^ i) = crc_register (replicate (i + CRC_SIZE) False) 1"
  using assms
  by (simp add: spec_crc_register bits_msb_power FRAME_SIZE_def replicate_add)

lemma spec_crc_flip: "spec_crc (flip_bit i frame) = spec_crc frame XOR spec_crc (2 ^ i)"
  by (simp add: flip_bit_eq_xor spec_crc_xor)

lemma spec_crc_detects_one:
  assumes "i < FRAME_SIZE"
  shows "spec_crc (flip_bit i frame) \<noteq> spec_crc frame"
proof -
  have "spec_crc (2 ^ i) \<noteq> 0"
    unfolding spec_crc_power [OF assms] by (rule crc_register_zeros_nonzero) simp
  then show ?thesis by (simp add: spec_crc_flip xor_eq_self)
qed

lemma spec_crc_detects_two:
  assumes "i < FRAME_SIZE" and "j < FRAME_SIZE" and "i \<noteq> j"
  shows "spec_crc (flip_bit i (flip_bit j frame)) \<noteq> spec_crc frame"
proof -
  from assms have "spec_crc (2 ^ j) \<noteq> spec_crc (2 ^ i)"
    using powers_distinct [of "i + CRC_SIZE" "j + CRC_SIZE"]
      powers_distinct [of "j + CRC_SIZE" "i + CRC_SIZE"]
    by (cases "i < j") (auto simp: spec_crc_power FRAME_SIZE_def)
  then show ?thesis by (simp add: spec_crc_flip xor.assoc xor_eq_self xor_eq_zero)
qed

section \<open>The contract and the code\<close>

text \<open>
  The remainder of the long division is what the bit-serial division leaves in its
  register: the two descriptions of the check sequence in the specification agree.
\<close>

theorem remainder_is_register:
  "word_msb (poly_rem (bits_msb crcKey) (bits_msb (frame :: 100 word) @ replicate CRC_SIZE False))
     = crc_register (bits_msb frame @ replicate CRC_SIZE False) 0"
  using spec_crc_register [of frame] by (simp add: spec_crc_def)

text \<open>
  C26: an error of two bits, neither of them the first bit of the frame, is missed
  by the code and detected by the contract: the value that \<^verbatim>\<open>calculateCRC\<close>
  computes for the frame does not change, and the remainder of the division does.
\<close>

theorem contract_detects_what_code_misses:
  assumes "i < FRAME_SIZE - 1" and "j < FRAME_SIZE - 1" and "i \<noteq> j"
  shows "crc_frame (Some v) (flip_bit i (flip_bit j frame)) = crc_frame (Some v) frame
     \<and> spec_crc (flip_bit i (flip_bit j frame)) \<noteq> spec_crc frame"
  using assms spec_crc_detects_two [of i j frame]
  by (simp add: crc_frame_unchecked crc_value_flip2)

theorem contract_detects_what_code_misses_witness:
  "(0 :: nat) < FRAME_SIZE - 1 \<and> (1 :: nat) < FRAME_SIZE - 1 \<and> (0 :: nat) \<noteq> 1
   \<and> crc_frame (Some False) (flip_bit 0 (flip_bit 1 0)) = crc_frame (Some False) 0
   \<and> spec_crc (flip_bit 0 (flip_bit 1 0)) \<noteq> spec_crc 0"
  using contract_detects_what_code_misses [of 0 1 False 0] by (simp add: FRAME_SIZE_def)

text \<open>
  The contract detects every error of one bit; so does the code, whose value
  contains the parity of the frame.
\<close>

theorem contract_detects_single_flip:
  "i < FRAME_SIZE \<Longrightarrow> spec_crc (flip_bit i frame) \<noteq> spec_crc frame"
  by (rule spec_crc_detects_one)

theorem contract_detects_single_flip_witness:
  "(99 :: nat) < FRAME_SIZE \<and> spec_crc (flip_bit 99 0) \<noteq> spec_crc 0"
  using contract_detects_single_flip [of 99 0] by (simp add: FRAME_SIZE_def)

end
