(* ===== verification/Checksum.thy ===== *)
theory Checksum
  imports DLL_Prelude
begin

text \<open>
  \<^verbatim>\<open>calculateChecksum\<close> of \<^verbatim>\<open>src/viba.cpp\<close>: the check sequences are added into a
  \<^verbatim>\<open>uint32_t\<close> accumulator, a carry out of the low sixteen bits is added back into
  them after every addition, and the result is the two's complement of the
  accumulator in sixteen bits.

  The accumulator is a \<open>32 word\<close> and the result a \<open>16 word\<close>, so every wrap-around
  of the source is in the model. \<open>add_fold\<close> is the body of the loop (the
  variable \<^verbatim>\<open>sum\<close> of the source is \<open>acc\<close> here) and \<open>accumulate\<close> the loop. \<open>eac_add\<close> is the
  same step on natural numbers (end-around-carry addition), and \<open>eac_sum\<close> the sum
  it computes; the lemmas relate the words to them (\<open>unat_add_fold\<close>,
  \<open>unat_accumulate\<close>) and give the sum in closed form (\<open>eac_sum_closed\<close>).
\<close>

section \<open>calculateChecksum\<close>

definition add_fold :: "uint32_t \<Rightarrow> uint16_t \<Rightarrow> uint32_t" where
  "add_fold acc crc =
     (let acc = acc + ucast crc
      in if acc > 0xFFFF then (acc AND 0xFFFF) + 1 else acc)"

definition accumulate :: "uint16_t list \<Rightarrow> uint32_t" where
  "accumulate crcs = fold (\<lambda>crc acc. add_fold acc crc) crcs 0"

definition calculateChecksum :: "uint16_t list \<Rightarrow> uint16_t" where
  "calculateChecksum crcs =
     (let acc = accumulate crcs;
          checksum = (ucast (NOT acc) :: uint16_t)
      in checksum + 1)"

section \<open>End-around-carry addition on natural numbers\<close>

definition eac_add :: "nat \<Rightarrow> nat \<Rightarrow> nat" where
  "eac_add a c = (if a + c > 65535 then (a + c) mod 65536 + 1 else a + c)"

definition eac_sum :: "nat list \<Rightarrow> nat" where
  "eac_sum cs = fold (\<lambda>c a. eac_add a c) cs 0"

lemma eac_add_minus: "a \<le> 65535 \<Longrightarrow> c \<le> 65535 \<Longrightarrow>
  eac_add a c = (if a + c > 65535 then a + c - 65535 else a + c)"
proof -
  assume a: "a \<le> 65535" and c: "c \<le> 65535"
  show ?thesis
  proof (cases "a + c > 65535")
    case True
    with a c have "(a + c) mod 65536 = a + c - 65536"
      by (simp add: mod_if le_mod_geq)
    with True show ?thesis by (simp add: eac_add_def)
  next
    case False
    then show ?thesis by (simp add: eac_add_def)
  qed
qed

lemma eac_add_bound: "a \<le> 65535 \<Longrightarrow> c \<le> 65535 \<Longrightarrow> eac_add a c \<le> 65535"
  by (cases "a + c > 65535") (simp_all add: eac_add_minus)

lemma eac_add_zero_iff: "a \<le> 65535 \<Longrightarrow> c \<le> 65535 \<Longrightarrow> eac_add a c = 0 \<longleftrightarrow> a = 0 \<and> c = 0"
  by (auto simp: eac_add_minus)

lemma eac_add_mod: "a \<le> 65535 \<Longrightarrow> c \<le> 65535 \<Longrightarrow> eac_add a c mod 65535 = (a + c) mod 65535"
proof -
  assume a: "a \<le> 65535" and c: "c \<le> 65535"
  show ?thesis
  proof (cases "a + c > 65535")
    case True
    then have "(a + c) mod 65535 = (a + c - 65535) mod 65535"
      by (simp add: le_mod_geq)
    with True a c show ?thesis by (simp add: eac_add_minus)
  next
    case False
    with a c show ?thesis by (simp add: eac_add_minus)
  qed
qed

lemma fold_eac_add:
  assumes "a \<le> 65535" and "\<forall>c \<in> set cs. c \<le> 65535"
  shows "fold (\<lambda>c a. eac_add a c) cs a \<le> 65535
       \<and> fold (\<lambda>c a. eac_add a c) cs a mod 65535 = (a + sum_list cs) mod 65535
       \<and> (fold (\<lambda>c a. eac_add a c) cs a = 0 \<longleftrightarrow> a + sum_list cs = 0)"
  using assms
proof (induction cs arbitrary: a)
  case Nil
  then show ?case by simp
next
  case (Cons c cs)
  let ?a = "eac_add a c"
  from Cons.prems have c: "c \<le> 65535" and rest: "\<forall>c \<in> set cs. c \<le> 65535" by simp_all
  from Cons.prems(1) c have b: "?a \<le> 65535" by (rule eac_add_bound)
  note IH = Cons.IH [OF b rest]
  have "(?a + sum_list cs) mod 65535 = (?a mod 65535 + sum_list cs) mod 65535"
    by (simp add: mod_add_left_eq)
  also have "\<dots> = ((a + c) mod 65535 + sum_list cs) mod 65535"
    using Cons.prems(1) c by (simp add: eac_add_mod)
  also have "\<dots> = (a + sum_list (c # cs)) mod 65535"
    by (simp add: mod_add_left_eq add.assoc)
  finally have m: "(?a + sum_list cs) mod 65535 = (a + sum_list (c # cs)) mod 65535" .
  have z: "?a + sum_list cs = 0 \<longleftrightarrow> a + sum_list (c # cs) = 0"
    using Cons.prems(1) c by (simp add: eac_add_zero_iff)
  from IH m z show ?case by simp
qed

lemma eac_sum_bound: "\<forall>c \<in> set cs. c \<le> 65535 \<Longrightarrow> eac_sum cs \<le> 65535"
  using fold_eac_add [of 0 cs] by (simp add: eac_sum_def)

lemma eac_sum_mod: "\<forall>c \<in> set cs. c \<le> 65535 \<Longrightarrow> eac_sum cs mod 65535 = sum_list cs mod 65535"
  using fold_eac_add [of 0 cs] by (simp add: eac_sum_def)

lemma eac_sum_zero_iff: "\<forall>c \<in> set cs. c \<le> 65535 \<Longrightarrow> eac_sum cs = 0 \<longleftrightarrow> sum_list cs = 0"
  using fold_eac_add [of 0 cs] by (simp add: eac_sum_def)

lemma Suc_mod_cancel: "Suc a mod m = Suc b mod m \<Longrightarrow> a mod m = b mod (m::nat)"
  by (metis Zero_not_Suc mod_Suc nat.inject)

lemma eac_closed_nat:
  assumes le: "E \<le> 65535" and md: "E mod 65535 = S mod 65535" and z: "E = 0 \<longleftrightarrow> S = 0"
  shows "E = (if S = 0 then 0 else (S - 1) mod 65535 + (1::nat))"
proof (cases "S = 0")
  case True
  with z show ?thesis by simp
next
  case False
  with z obtain e s where E: "E = Suc e" and S: "S = Suc s"
    by (metis not0_implies_Suc)
  from md have "e mod 65535 = s mod 65535"
    unfolding E S by (rule Suc_mod_cancel)
  moreover from le E have "e mod 65535 = e" by simp
  ultimately show ?thesis using E S by simp
qed

lemma eac_sum_closed:
  assumes "\<forall>c \<in> set cs. c \<le> 65535"
  shows "eac_sum cs = (if sum_list cs = 0 then 0 else (sum_list cs - 1) mod 65535 + 1)"
  using eac_sum_bound [OF assms] eac_sum_mod [OF assms] eac_sum_zero_iff [OF assms]
  by (rule eac_closed_nat)

section \<open>The words against the natural numbers\<close>

lemma unat_ucast_crc [simp]: "unat (ucast (crc :: uint16_t) :: uint32_t) = unat crc"
  by (simp add: unsigned_ucast_eq take_bit_nat_eq_self_iff unsigned_less [THEN less_trans])

lemma unat_crc_le: "unat (crc :: uint16_t) \<le> 65535"
  using unsigned_less [of crc, where 'a = nat] by simp

lemma low16: "unat ((acc :: uint32_t) AND 0xFFFF) = unat acc mod 65536"
proof -
  have eq: "acc AND 0xFFFF = take_bit 16 acc"
    by (simp add: take_bit_eq_mask mask_eq_exp_minus_1)
  show ?thesis unfolding eq unsigned_take_bit_eq by (simp add: take_bit_eq_mod)
qed

lemma unat_add_fold:
  assumes "unat acc \<le> 65535"
  shows "unat (add_fold acc crc) = eac_add (unat acc) (unat crc)"
proof -
  let ?s = "acc + ucast crc"
  have s: "unat ?s = unat acc + unat crc"
    using assms unat_crc_le [of crc] by (simp add: unat_add_lem [THEN iffD1])
  have gt: "?s > 0xFFFF \<longleftrightarrow> unat acc + unat crc > 65535"
    by (simp add: word_less_nat_alt s)
  have "unat ((?s AND 0xFFFF) + 1) = unat ?s mod 65536 + 1"
  proof -
    have "unat (?s AND 0xFFFF) + unat (1 :: uint32_t) < 2 ^ LENGTH(32)"
      by (simp add: low16)
    then show ?thesis by (simp add: unat_add_lem [THEN iffD1] low16)
  qed
  then show ?thesis
    by (simp add: add_fold_def Let_def gt eac_add_def s)
qed

lemma unat_fold_add_fold:
  "unat acc \<le> 65535 \<Longrightarrow>
   unat (fold (\<lambda>crc acc. add_fold acc crc) crcs acc) = fold (\<lambda>c a. eac_add a c) (map unat crcs) (unat acc)
   \<and> unat (fold (\<lambda>crc acc. add_fold acc crc) crcs acc) \<le> 65535"
proof (induction crcs arbitrary: acc)
  case Nil
  then show ?case by simp
next
  case (Cons crc crcs)
  have "unat (add_fold acc crc) \<le> 65535"
    using Cons.prems unat_crc_le [of crc] by (simp add: unat_add_fold eac_add_bound)
  from Cons.IH [OF this] Cons.prems show ?case by (simp add: unat_add_fold)
qed

lemma unat_accumulate: "unat (accumulate crcs) = eac_sum (map unat crcs)"
  using unat_fold_add_fold [of 0 crcs] by (simp add: accumulate_def eac_sum_def)

lemma accumulate_le: "unat (accumulate crcs) \<le> 65535"
  using unat_fold_add_fold [of 0 crcs] by (simp add: accumulate_def)

lemma ucast_NOT_down: "(ucast (NOT (acc :: uint32_t)) :: uint16_t) = NOT (ucast acc)"
  by (rule bit_word_eqI) (auto simp: bit_simps)

lemma calculateChecksum_neg: "calculateChecksum crcs = - ucast (accumulate crcs)"
  by (simp add: calculateChecksum_def Let_def ucast_NOT_down minus_eq_not_plus_1)

lemma calculateChecksum_plus: "calculateChecksum crcs + ucast (accumulate crcs) = 0"
  by (simp add: calculateChecksum_neg)

lemma accumulate_zero_iff: "accumulate crcs = 0 \<longleftrightarrow> (\<forall>crc \<in> set crcs. crc = 0)"
proof -
  have "accumulate crcs = 0 \<longleftrightarrow> unat (accumulate crcs) = 0" by (simp add: unsigned_eq_0_iff)
  also have "\<dots> \<longleftrightarrow> sum_list (map unat crcs) = 0"
    by (simp add: unat_accumulate eac_sum_zero_iff unat_crc_le)
  also have "\<dots> \<longleftrightarrow> (\<forall>crc \<in> set crcs. crc = 0)" by (simp add: unsigned_eq_0_iff)
  finally show ?thesis .
qed

lemma calculateChecksum_zero_iff: "calculateChecksum crcs = 0 \<longleftrightarrow> accumulate crcs = 0"
proof -
  have "(ucast (accumulate crcs) :: uint16_t) = 0 \<longleftrightarrow> accumulate crcs = 0"
  proof
    assume "(ucast (accumulate crcs) :: uint16_t) = 0"
    then have "unat (ucast (accumulate crcs) :: uint16_t) = 0" by simp
    then have "unat (accumulate crcs) mod 65536 = 0"
      by (simp add: unsigned_ucast_eq unsigned_take_bit_eq take_bit_eq_mod)
    with accumulate_le [of crcs] have "unat (accumulate crcs) = 0" by simp
    then show "accumulate crcs = 0" by (simp add: unsigned_eq_0_iff)
  qed simp
  then show ?thesis by (simp add: calculateChecksum_neg)
qed

section \<open>Properties of the checksum\<close>

text \<open>
  C29: after every iteration the accumulator fits in sixteen bits, so the 32-bit
  addition of the next check sequence cannot wrap and the carry is at most one.
\<close>

theorem accumulator_stays_16_bit:
  "unat (accumulate crcs) \<le> 0xFFFF"
  using accumulate_le [of crcs] by simp

text \<open>
  C32: on an accumulator that fits in sixteen bits, the body of the loop is
  end-around-carry addition of the numbers the words stand for.
\<close>

theorem add_fold_refines_eac_add:
  "unat acc \<le> 65535 \<Longrightarrow> unat (add_fold acc crc) = eac_add (unat acc) (unat crc)"
  by (rule unat_add_fold)

theorem add_fold_refines_eac_add_witness:
  "unat (0xFFFF :: uint32_t) \<le> 65535
   \<and> unat (add_fold 0xFFFF 0xFFFF) = eac_add (unat (0xFFFF :: uint32_t)) (unat (0xFFFF :: uint16_t))
   \<and> add_fold 0xFFFF 0xFFFF = 0xFFFF"
  using add_fold_refines_eac_add [of "0xFFFF" "0xFFFF"] by (simp add: add_fold_def)

text \<open>
  C5: the accumulator is zero when every check sequence is zero, and otherwise the
  representative in \<open>1..65535\<close> of their sum modulo \<open>65535\<close>.
\<close>

theorem accumulate_mod_65535:
  "unat (accumulate crcs) =
     (if sum_list (map unat crcs) = 0 then 0 else (sum_list (map unat crcs) - 1) mod 65535 + 1)"
  unfolding unat_accumulate by (rule eac_sum_closed) (simp add: unat_crc_le)

text \<open>
  C8: the checksum is the two's complement of the low sixteen bits of the
  accumulator: added to them it gives zero.
\<close>

theorem checksum_is_negation:
  "calculateChecksum crcs + ucast (accumulate crcs) = 0"
  by (rule calculateChecksum_plus)

text \<open>
  For the check sequences \<open>0x0001\<close> and \<open>0xFFFF\<close> the sum \<open>0x10000\<close> folds to
  \<open>0x0001\<close> and the checksum is \<open>0xFFFF\<close>.
\<close>

theorem checksum_fold_example:
  "accumulate [0x0001, 0xFFFF] = 0x0001 \<and> calculateChecksum [0x0001, 0xFFFF] = 0xFFFF"
  by (simp add: calculateChecksum_def accumulate_def add_fold_def Let_def)

text \<open>C40: the checksum is zero exactly when every check sequence is zero.\<close>

theorem checksum_zero_iff:
  "calculateChecksum crcs = 0 \<longleftrightarrow> set crcs \<subseteq> {0}"
  by (auto simp: calculateChecksum_zero_iff accumulate_zero_iff)

end
