(* ===== verification/ArqSimulator.thy ===== *)
theory ArqSimulator
  imports Complex_Main DLL_Prelude
begin

text \<open>
  \<^verbatim>\<open>simulateTransmission\<close> of \<^verbatim>\<open>src/viba.cpp\<close>: the Stop-and-Wait loop over the
  frames and the single attempt to deliver the checksum.

  The function has three effects, and each is a field of the state \<open>sim\<close> that the
  model passes along: the loop variable \<^verbatim>\<open>i\<close> (the field \<open>idx\<close>, a \<open>size_t\<close>, so
  \<^verbatim>\<open>--i\<close> at zero wraps around as in the source), the state of the random
  generator (\<open>draws\<close>), and what has been written and waited for so far (\<open>out\<close>,
  extended by \<open>emit\<close> and \<open>wait\<close>). A console line is an \<open>event\<close>; its text is not
  modelled, its payload is.

  The random source is an interface: a \<open>source\<close> is a function that takes the state
  of a generator to the next value and the next state, or to \<open>None\<close> when it has no
  value. \<open>draw\<close>, \<open>frame_body\<close>, \<open>send_loop\<close>, \<open>send_checksum\<close> and
  \<open>simulateTransmission\<close> take the source as their first argument and are stated
  once, for every type of generator. Two sources are used: \<open>script\<close>, a finite list
  of draws fixed in advance (this theory and \<open>ArqRefinement\<close>), and \<open>endless\<close>, an
  infinite stream, which like the generator of the program always has a next value
  (\<open>ArqStream\<close>).

  The loop can run for ever, so \<open>send_loop\<close> is a partial function in the \<open>option\<close>
  monad. On a script \<open>None\<close> is the run that reaches the end of the script: the
  refinement theorem of \<open>ArqRefinement\<close> equates the loop on a script with a total
  function. On a stream \<open>None\<close> is the run that does not return.

  A draw is a rational number and the thresholds are the decimal numbers of the
  source. The program compares \<^verbatim>\<open>double\<close> values with the \<^verbatim>\<open>double\<close> nearest to \<open>0.10\<close>,
  \<open>0.10 + 0.20\<close>, \<open>0.15\<close> and \<open>0.05\<close>. No \<^verbatim>\<open>double\<close> lies between a decimal number and
  the \<^verbatim>\<open>double\<close> nearest to it, so the comparisons have the same outcome on every
  \<^verbatim>\<open>double\<close> draw but one: the \<^verbatim>\<open>double\<close> nearest to \<open>0.15\<close> lies below \<open>0.15\<close>, and a draw
  equal to it is below the threshold in the model and not in the program.
\<close>

section \<open>Constants\<close>

definition LOST_FRAME_PROB :: rat where
  "LOST_FRAME_PROB = 0.10"

definition CORRUPTED_FRAME_PROB :: rat where
  "CORRUPTED_FRAME_PROB = 0.20"

definition LOST_ACK_PROB :: rat where
  "LOST_ACK_PROB = 0.15"

definition CHECKSUM_ERROR_PROB :: rat where
  "CHECKSUM_ERROR_PROB = 0.05"

lemmas prob_defs = LOST_FRAME_PROB_def CORRUPTED_FRAME_PROB_def LOST_ACK_PROB_def
  CHECKSUM_ERROR_PROB_def

section \<open>Console lines and the state of the simulation\<close>

datatype event =
    MsgStarted
  | MsgSending size_t
  | MsgFrameLost
  | MsgFrameCorrupted
  | MsgFrameReceived
  | MsgAckLost
  | MsgAckReceived
  | MsgChecksumSending
  | MsgChecksumCorrupted
  | MsgChecksumDelivered uint16_t
  | MsgFinished
  | Wait int

record 'g sim =
  idx :: size_t
  draws :: 'g
  out :: "event list"

type_synonym 'g source = "'g \<Rightarrow> (rat \<times> 'g) option"

fun script :: "rat list source" where
  "script [] = None"
| "script (r # rs) = Some (r, rs)"

definition emit :: "event \<Rightarrow> 'g sim \<Rightarrow> 'g sim" where
  "emit e s = s\<lparr>out := out s @ [e]\<rparr>"

definition wait :: "int \<Rightarrow> 'g sim \<Rightarrow> 'g sim" where
  "wait ms s = emit (Wait ms) s"

definition draw :: "'g source \<Rightarrow> 'g sim \<Rightarrow> (rat \<times> 'g sim) option" where
  "draw prob s = (case prob (draws s) of None \<Rightarrow> None | Some (r, g) \<Rightarrow> Some (r, s\<lparr>draws := g\<rparr>))"

section \<open>The loop over the frames\<close>

definition retry :: "'g sim \<Rightarrow> 'g sim" where
  "retry s = s\<lparr>idx := idx s - 1\<rparr>"

definition frame_body :: "'g source \<Rightarrow> 'g sim \<Rightarrow> 'g sim option" where
  "frame_body prob s = do {
     let s = emit (MsgSending (idx s)) s;
     let s = wait 500 s;
     (rand_val, s) \<leftarrow> draw prob s;
     if rand_val < LOST_FRAME_PROB then
       Some (retry (wait 500 (emit MsgFrameLost s)))
     else if rand_val < LOST_FRAME_PROB + CORRUPTED_FRAME_PROB then
       Some (retry (wait 500 (emit MsgFrameCorrupted s)))
     else do {
       let s = emit MsgFrameReceived s;
       (ack_val, s) \<leftarrow> draw prob s;
       if ack_val < LOST_ACK_PROB then
         Some (retry (wait 500 (emit MsgAckLost s)))
       else
         Some (wait 500 (emit MsgAckReceived s))
     }
   }"

lemma draws_emit [simp]: "draws (emit e s) = draws s"
  by (simp add: emit_def)

lemma draws_wait [simp]: "draws (wait ms s) = draws s"
  by (simp add: wait_def)

lemma draws_retry [simp]: "draws (retry s) = draws s"
  by (simp add: retry_def)

partial_function (option) send_loop :: "'g source \<Rightarrow> size_t \<Rightarrow> 'g sim \<Rightarrow> 'g sim option" where
  "send_loop prob n s =
     (if idx s < n
      then case frame_body prob s of
             None \<Rightarrow> None
           | Some s' \<Rightarrow> send_loop prob n (s'\<lparr>idx := idx s' + 1\<rparr>)
      else Some s)"

section \<open>simulateTransmission\<close>

definition send_checksum :: "'g source \<Rightarrow> uint16_t \<Rightarrow> 'g sim \<Rightarrow> 'g sim option" where
  "send_checksum prob checksum s = do {
     let s = emit MsgChecksumSending s;
     let s = wait 500 s;
     (checksumError, s) \<leftarrow> draw prob s;
     let s = (if checksumError < CHECKSUM_ERROR_PROB
              then emit MsgChecksumCorrupted s
              else emit (MsgChecksumDelivered checksum) s);
     Some (emit MsgFinished s)
   }"

definition simulateTransmission ::
    "'g source \<Rightarrow> 100 word list \<Rightarrow> 16 word list \<Rightarrow> uint16_t \<Rightarrow> 'g \<Rightarrow> 'g sim option" where
  "simulateTransmission prob frames crcs checksum gen = do {
     let s = emit MsgStarted \<lparr>idx = 0, draws = gen, out = []\<rparr>;
     s \<leftarrow> send_loop prob (of_nat (length frames)) s;
     send_checksum prob checksum s
   }"

section \<open>One iteration as a function of the next draws\<close>

text \<open>
  What one pass through the loop body writes, by outcome: the attempt on frame \<open>k\<close>
  that ends in a fault of the frame, in a lost acknowledgement, or in an
  acknowledgement.
\<close>

definition fault_lines :: "size_t \<Rightarrow> event \<Rightarrow> event list" where
  "fault_lines k e = [MsgSending k, Wait 500, e, Wait 500]"

definition ack_lines :: "size_t \<Rightarrow> event \<Rightarrow> event list" where
  "ack_lines k e = [MsgSending k, Wait 500, MsgFrameReceived, e, Wait 500]"

definition logged :: "event list \<Rightarrow> 'g \<Rightarrow> 'g sim \<Rightarrow> 'g sim" where
  "logged es ds s = s\<lparr>draws := ds, out := out s @ es\<rparr>"

lemmas sim_defs = emit_def wait_def draw_def retry_def logged_def fault_lines_def ack_lines_def

lemma logged_sel [simp]:
  "idx (logged es ds s) = idx s" "draws (logged es ds s) = ds" "out (logged es ds s) = out s @ es"
  by (simp_all add: logged_def)

lemma logged_twice [simp]: "logged es' ds' (logged es ds s) = logged (es @ es') ds' s"
  by (simp add: logged_def)

lemma logged_idx_update [simp]: "logged es ds (s\<lparr>idx := k\<rparr>) = (logged es ds s)\<lparr>idx := k\<rparr>"
  by (simp add: logged_def)

lemma frame_body_eq:
  "frame_body script s =
     (case draws s of
        [] \<Rightarrow> None
      | r # ds \<Rightarrow>
          if r < LOST_FRAME_PROB then Some (retry (logged (fault_lines (idx s) MsgFrameLost) ds s))
          else if r < LOST_FRAME_PROB + CORRUPTED_FRAME_PROB
          then Some (retry (logged (fault_lines (idx s) MsgFrameCorrupted) ds s))
          else (case ds of
                  [] \<Rightarrow> None
                | a # ds' \<Rightarrow>
                    if a < LOST_ACK_PROB then Some (retry (logged (ack_lines (idx s) MsgAckLost) ds' s))
                    else Some (logged (ack_lines (idx s) MsgAckReceived) ds' s)))"
  by (cases "draws s" rule: script.cases; cases "tl (draws s)" rule: script.cases)
    (simp_all add: frame_body_def sim_defs)

lemma retry_then_increment [simp]: "(retry s)\<lparr>idx := idx (retry s) + 1\<rparr> = s"
  by (simp add: retry_def)

lemma send_loop_done: "\<not> idx s < n \<Longrightarrow> send_loop prob n s = Some s"
  by (simp add: send_loop.simps)

text \<open>
  Induction over a run of the loop that returns: the loop is at its end, or the
  body returns and the rest of the run starts one index further.
\<close>

lemma send_loop_induct [consumes 1, case_names finished step]:
  assumes ret: "send_loop prob n s = Some s'"
    and finished: "\<And>s. \<not> idx s < n \<Longrightarrow> P s s"
    and step: "\<And>s s1 s'. idx s < n \<Longrightarrow> frame_body prob s = Some s1 \<Longrightarrow>
      send_loop prob n (s1\<lparr>idx := idx s1 + 1\<rparr>) = Some s' \<Longrightarrow>
      P (s1\<lparr>idx := idx s1 + 1\<rparr>) s' \<Longrightarrow> P s s'"
  shows "P s s'"
proof -
  have "p = prob \<longrightarrow> m = n \<longrightarrow> send_loop prob n t = Some t' \<and> P t t'"
    if "send_loop p m t = Some t'" for p m t t'
  proof (rule send_loop.raw_induct [where P = "\<lambda>p m t t'.
      p = prob \<longrightarrow> m = n \<longrightarrow> send_loop prob n t = Some t' \<and> P t t'", OF _ that])
    fix f p m t t'
    assume IH: "\<And>p m t t'. f p m t = Some t' \<Longrightarrow>
        p = prob \<longrightarrow> m = n \<longrightarrow> send_loop prob n t = Some t' \<and> P t t'"
      and eq: "(if idx t < m
          then case frame_body p t of None \<Rightarrow> None | Some t1 \<Rightarrow> f p m (t1\<lparr>idx := idx t1 + 1\<rparr>)
          else Some t) = Some t'"
    show "p = prob \<longrightarrow> m = n \<longrightarrow> send_loop prob n t = Some t' \<and> P t t'"
    proof (intro impI)
      assume at: "p = prob" "m = n"
      show "send_loop prob n t = Some t' \<and> P t t'"
      proof (cases "idx t < n")
        case False
        with eq at finished [of t] show ?thesis by (simp add: send_loop_done)
      next
        case True
        with eq at obtain t1 where body: "frame_body prob t = Some t1"
          and rec: "f prob n (t1\<lparr>idx := idx t1 + 1\<rparr>) = Some t'"
          by (auto split: option.splits)
        from IH [OF rec] have run: "send_loop prob n (t1\<lparr>idx := idx t1 + 1\<rparr>) = Some t'"
          and rest: "P (t1\<lparr>idx := idx t1 + 1\<rparr>) t'" by simp_all
        from True body run have "send_loop prob n t = Some t'"
          by (subst send_loop.simps) simp
        with step [OF True body run rest] show ?thesis by simp
      qed
    qed
  qed
  from this [OF ret] show ?thesis by simp
qed

lemma send_loop_empty: "idx s < n \<Longrightarrow> draws s = [] \<Longrightarrow> send_loop script n s = None"
  by (simp add: send_loop.simps frame_body_eq)

lemma send_loop_lost:
  "idx s < n \<Longrightarrow> draws s = r # ds \<Longrightarrow> r < LOST_FRAME_PROB \<Longrightarrow>
   send_loop script n s = send_loop script n (logged (fault_lines (idx s) MsgFrameLost) ds s)"
  by (subst send_loop.simps) (simp add: frame_body_eq)

lemma send_loop_corrupted:
  "idx s < n \<Longrightarrow> draws s = r # ds \<Longrightarrow> \<not> r < LOST_FRAME_PROB \<Longrightarrow>
   r < LOST_FRAME_PROB + CORRUPTED_FRAME_PROB \<Longrightarrow>
   send_loop script n s = send_loop script n (logged (fault_lines (idx s) MsgFrameCorrupted) ds s)"
  by (subst send_loop.simps) (simp add: frame_body_eq)

lemma send_loop_half:
  "idx s < n \<Longrightarrow> draws s = [r] \<Longrightarrow> \<not> r < LOST_FRAME_PROB + CORRUPTED_FRAME_PROB \<Longrightarrow>
   send_loop script n s = None"
  by (subst send_loop.simps) (simp add: frame_body_eq prob_defs)

lemma send_loop_ack_lost:
  "idx s < n \<Longrightarrow> draws s = r # a # ds \<Longrightarrow> \<not> r < LOST_FRAME_PROB + CORRUPTED_FRAME_PROB \<Longrightarrow>
   a < LOST_ACK_PROB \<Longrightarrow>
   send_loop script n s = send_loop script n (logged (ack_lines (idx s) MsgAckLost) ds s)"
  by (subst send_loop.simps) (simp add: frame_body_eq prob_defs)

lemma send_loop_ack:
  "idx s < n \<Longrightarrow> draws s = r # a # ds \<Longrightarrow> \<not> r < LOST_FRAME_PROB + CORRUPTED_FRAME_PROB \<Longrightarrow>
   \<not> a < LOST_ACK_PROB \<Longrightarrow>
   send_loop script n s = send_loop script n ((logged (ack_lines (idx s) MsgAckReceived) ds s)\<lparr>idx := idx s + 1\<rparr>)"
  by (subst send_loop.simps) (simp add: frame_body_eq prob_defs)

lemmas send_loop_eqs = send_loop_done send_loop_empty send_loop_lost send_loop_corrupted
  send_loop_half send_loop_ack_lost send_loop_ack

text \<open>The outcomes of one iteration, by the draws that are left.\<close>

lemma draws_cases [case_names empty lost corrupted half ack_lost ack]:
  fixes ds :: "rat list"
  obtains "ds = []"
  | r ds' where "ds = r # ds'" "r < LOST_FRAME_PROB"
  | r ds' where "ds = r # ds'" "\<not> r < LOST_FRAME_PROB" "r < LOST_FRAME_PROB + CORRUPTED_FRAME_PROB"
  | r where "ds = [r]" "\<not> r < LOST_FRAME_PROB + CORRUPTED_FRAME_PROB"
  | r a ds' where "ds = r # a # ds'" "\<not> r < LOST_FRAME_PROB + CORRUPTED_FRAME_PROB"
      "a < LOST_ACK_PROB"
  | r a ds' where "ds = r # a # ds'" "\<not> r < LOST_FRAME_PROB + CORRUPTED_FRAME_PROB"
      "\<not> a < LOST_ACK_PROB"
proof (cases ds)
  case Nil
  then show ?thesis by (rule that(1))
next
  case (Cons r ds')
  show ?thesis
  proof (cases "r < LOST_FRAME_PROB + CORRUPTED_FRAME_PROB")
    case True
    with Cons that(2,3) show ?thesis by blast
  next
    case False
    with Cons that(4,5,6) show ?thesis by (cases ds') blast+
  qed
qed

definition checksum_lines :: "uint16_t \<Rightarrow> rat \<Rightarrow> event list" where
  "checksum_lines checksum c =
     [MsgChecksumSending, Wait 500,
      if c < CHECKSUM_ERROR_PROB then MsgChecksumCorrupted else MsgChecksumDelivered checksum,
      MsgFinished]"

lemma send_checksum_eq:
  "send_checksum script checksum s =
     (case draws s of [] \<Rightarrow> None | c # ds \<Rightarrow> Some (logged (checksum_lines checksum c) ds s))"
  by (cases "draws s" rule: script.cases) (simp_all add: send_checksum_def checksum_lines_def sim_defs)

section \<open>Observations of the output\<close>

text \<open>
  The frames that the output reports as acknowledged: \<open>acked cur es\<close> follows the
  lines \<open>es\<close>, remembers the index of the last frame announced (\<open>cur\<close> at the
  start), and lists it at each acknowledgement. \<open>sent es\<close> lists the announced
  indices, one per attempt, and \<open>fault_count es\<close> counts the reported faults.
\<close>

fun acked :: "size_t \<Rightarrow> event list \<Rightarrow> size_t list" where
  "acked cur [] = []"
| "acked cur (MsgSending k # es) = acked k es"
| "acked cur (MsgAckReceived # es) = cur # acked cur es"
| "acked cur (e # es) = acked cur es"

fun sent :: "event list \<Rightarrow> size_t list" where
  "sent [] = []"
| "sent (MsgSending k # es) = k # sent es"
| "sent (e # es) = sent es"

definition is_fault_line :: "event \<Rightarrow> bool" where
  "is_fault_line e \<longleftrightarrow> e \<in> {MsgFrameLost, MsgFrameCorrupted, MsgAckLost}"

definition fault_count :: "event list \<Rightarrow> nat" where
  "fault_count es = length (filter is_fault_line es)"

lemma sent_append [simp]: "sent (es @ es') = sent es @ sent es'"
  by (induction es rule: sent.induct) simp_all

lemma fault_count_append [simp]: "fault_count (es @ es') = fault_count es + fault_count es'"
  by (simp add: fault_count_def)

lemma fault_count_Cons: "fault_count (e # es) = (if is_fault_line e then 1 else 0) + fault_count es"
  by (simp add: fault_count_def)

lemma fault_count_Nil [simp]: "fault_count [] = 0"
  by (simp add: fault_count_def)

lemma checksum_lines_quiet [simp]:
  "acked cur (checksum_lines checksum c) = []" "sent (checksum_lines checksum c) = []"
  "fault_count (checksum_lines checksum c) = 0"
  by (simp_all add: checksum_lines_def fault_count_def is_fault_line_def)

section \<open>The loop variable below zero\<close>



end
