(* ===== verification/ArqMachine.thy ===== *)
theory ArqMachine
  imports Complex_Main DLL_Prelude
begin

text \<open>
  The Stop-and-Wait state machine that the specification gives for the
  transmission of \<open>n\<close> frames, on its own: the states \<open>Sending k\<close>, \<open>AwaitingAck k\<close>
  and \<open>Done\<close>, the outcomes of a draw (\<open>channel_event\<close>; \<open>FrameArrived\<close> labels the
  step from \<open>Sending\<close> to \<open>AwaitingAck\<close>, which the specification leaves without a
  name), the transition relation \<open>arq_step\<close>, its paths \<open>arq_path\<close>, and the run of
  the machine on a list of draws \<open>arq_run\<close>.

  The lemmas are the protocol's properties, proved once for every path of the
  machine: the frame index never goes back and moves by one exactly on
  \<open>Delivered\<close>; a path from frame \<open>k\<close> to \<open>Done\<close> delivers the frames \<open>k, ..., n - 1\<close>
  in this order, each once; the number of attempts is the number of deliveries
  plus the number of faults. The theory \<open>ArqRefinement\<close> transfers them to the code.
\<close>

section \<open>States, events and transitions\<close>

datatype arq_state = Sending nat | AwaitingAck nat | Done

datatype channel_event = FrameLost | FrameCorrupted | FrameArrived | AckLost | Delivered

type_synonym transition = "arq_state \<times> channel_event"

definition frame_at :: "nat \<Rightarrow> nat \<Rightarrow> arq_state" where
  "frame_at n k = (if k < n then Sending k else Done)"

inductive arq_step :: "nat \<Rightarrow> arq_state \<Rightarrow> channel_event \<Rightarrow> arq_state \<Rightarrow> bool" for n where
  frame_lost: "arq_step n (Sending k) FrameLost (Sending k)"
| frame_corrupted: "arq_step n (Sending k) FrameCorrupted (Sending k)"
| frame_arrived: "arq_step n (Sending k) FrameArrived (AwaitingAck k)"
| ack_lost: "arq_step n (AwaitingAck k) AckLost (Sending k)"
| delivered: "arq_step n (AwaitingAck k) Delivered (frame_at n (Suc k))"

inductive arq_path :: "nat \<Rightarrow> arq_state \<Rightarrow> transition list \<Rightarrow> arq_state \<Rightarrow> bool" for n where
  path_nil: "arq_path n st [] st"
| path_step: "arq_step n st e st' \<Longrightarrow> arq_path n st' p st'' \<Longrightarrow> arq_path n st ((st, e) # p) st''"

code_pred arq_step .

inductive_cases arq_step_SendingE [elim!]: "arq_step n (Sending k) e st'"
inductive_cases arq_step_AwaitingE [elim!]: "arq_step n (AwaitingAck k) e st'"
inductive_cases arq_step_DoneE [elim!]: "arq_step n Done e st'"
inductive_cases arq_path_NilE [elim!]: "arq_path n st [] st'"
inductive_cases arq_path_ConsE [elim!]: "arq_path n st (t # p) st'"

section \<open>The machine driven by draws\<close>

fun arq_next :: "nat \<Rightarrow> arq_state \<Rightarrow> rat \<Rightarrow> (channel_event \<times> arq_state) option" where
  "arq_next n (Sending k) r =
     Some (if r < 0.10 then (FrameLost, Sending k)
           else if r < 0.30 then (FrameCorrupted, Sending k)
           else (FrameArrived, AwaitingAck k))"
| "arq_next n (AwaitingAck k) a =
     Some (if a < 0.15 then (AckLost, Sending k) else (Delivered, frame_at n (Suc k)))"
| "arq_next n Done r = None"

fun arq_run :: "nat \<Rightarrow> arq_state \<Rightarrow> rat list \<Rightarrow> (transition list \<times> rat list) option" where
  "arq_run n Done ds = Some ([], ds)"
| "arq_run n st [] = None"
| "arq_run n st (r # ds) =
     (case arq_next n st r of
        None \<Rightarrow> None
      | Some (e, st') \<Rightarrow> map_option (apfst ((#) (st, e))) (arq_run n st' ds))"

section \<open>Observations of a path\<close>

fun position :: "nat \<Rightarrow> arq_state \<Rightarrow> nat" where
  "position n (Sending k) = k"
| "position n (AwaitingAck k) = k"
| "position n Done = n"

fun valid :: "nat \<Rightarrow> arq_state \<Rightarrow> bool" where
  "valid n (Sending k) \<longleftrightarrow> k < n"
| "valid n (AwaitingAck k) \<longleftrightarrow> k < n"
| "valid n Done \<longleftrightarrow> True"

fun deliveries :: "transition list \<Rightarrow> nat list" where
  "deliveries [] = []"
| "deliveries ((AwaitingAck k, Delivered) # p) = k # deliveries p"
| "deliveries (t # p) = deliveries p"

fun attempts :: "transition list \<Rightarrow> nat list" where
  "attempts [] = []"
| "attempts ((Sending k, e) # p) = k # attempts p"
| "attempts (t # p) = attempts p"

definition is_fault :: "transition \<Rightarrow> bool" where
  "is_fault t \<longleftrightarrow> snd t \<in> {FrameLost, FrameCorrupted, AckLost}"

definition faults :: "transition list \<Rightarrow> nat" where
  "faults p = length (filter is_fault p)"

section \<open>Steps\<close>

lemma frame_at_simps [simp]:
  "k < n \<Longrightarrow> frame_at n k = Sending k" "n \<le> k \<Longrightarrow> frame_at n k = Done"
  by (simp_all add: frame_at_def)

lemma valid_frame_at [simp]: "valid n (frame_at n k)"
  by (simp add: frame_at_def)

lemma position_frame_at [simp]: "position n (frame_at n k) = min k n"
  by (simp add: frame_at_def)

lemma arq_next_sound: "arq_next n st r = Some (e, st') \<Longrightarrow> arq_step n st e st'"
  by (cases st) (auto split: if_splits intro: arq_step.intros)

lemma arq_step_complete: "arq_step n st e st' \<Longrightarrow> \<exists>r. arq_next n st r = Some (e, st')"
proof (induction rule: arq_step.induct)
  case (frame_lost k)
  have "arq_next n (Sending k) 0 = Some (FrameLost, Sending k)" by simp
  then show ?case ..
next
  case (frame_corrupted k)
  have "arq_next n (Sending k) 0.2 = Some (FrameCorrupted, Sending k)" by simp
  then show ?case ..
next
  case (frame_arrived k)
  have "arq_next n (Sending k) 1 = Some (FrameArrived, AwaitingAck k)" by simp
  then show ?case ..
next
  case (ack_lost k)
  have "arq_next n (AwaitingAck k) 0 = Some (AckLost, Sending k)" by simp
  then show ?case ..
next
  case (delivered k)
  have "arq_next n (AwaitingAck k) 1 = Some (Delivered, frame_at n (Suc k))" by simp
  then show ?case ..
qed

lemma arq_step_deterministic:
  "arq_step n st e st' \<Longrightarrow> arq_step n st e st'' \<Longrightarrow> st' = st''"
  by (cases st) auto

lemma arq_step_valid: "arq_step n st e st' \<Longrightarrow> valid n st \<Longrightarrow> valid n st'"
  by (induction rule: arq_step.induct) simp_all

lemma arq_step_position:
  "arq_step n st e st' \<Longrightarrow> valid n st \<Longrightarrow>
   position n st' = position n st + (if e = Delivered then 1 else 0)"
  by (induction rule: arq_step.induct) simp_all

section \<open>Paths\<close>

lemma arq_path_append:
  "arq_path n st p st' \<Longrightarrow> arq_path n st' q st'' \<Longrightarrow> arq_path n st (p @ q) st''"
  by (induction rule: arq_path.induct) (auto intro: arq_path.intros)

lemma arq_path_valid: "arq_path n st p st' \<Longrightarrow> valid n st \<Longrightarrow> valid n st'"
  by (induction rule: arq_path.induct) (auto dest: arq_step_valid)

lemma arq_path_monotone: "arq_path n st p st' \<Longrightarrow> valid n st \<Longrightarrow> position n st \<le> position n st'"
proof (induction rule: arq_path.induct)
  case (path_nil st)
  show ?case by simp
next
  case (path_step st e st' p st'')
  from path_step.hyps(1) path_step.prems have "valid n st'" "position n st \<le> position n st'"
    by (simp_all add: arq_step_valid arq_step_position)
  with path_step.IH show ?case by simp
qed

lemma arq_path_Done: "arq_path n Done p st' \<Longrightarrow> p = [] \<and> st' = Done"
  by (cases p) auto

lemma deliveries_step:
  "arq_step n st e st' \<Longrightarrow> valid n st \<Longrightarrow>
   deliveries ((st, e) # p) = [position n st..<position n st'] @ deliveries p"
  by (induction rule: arq_step.induct) simp_all

lemma arq_path_deliveries:
  "arq_path n st p st' \<Longrightarrow> valid n st \<Longrightarrow> deliveries p = [position n st..<position n st']"
proof (induction rule: arq_path.induct)
  case (path_nil st)
  show ?case by simp
next
  case (path_step st e st' p st'')
  from path_step.hyps(1) path_step.prems have v: "valid n st'" and le: "position n st \<le> position n st'"
    by (simp_all add: arq_step_valid arq_step_position)
  from path_step.hyps(2) v have le': "position n st' \<le> position n st''" by (rule arq_path_monotone)
  have "deliveries ((st, e) # p) = [position n st..<position n st'] @ [position n st'..<position n st'']"
    using path_step.hyps(1) path_step.prems path_step.IH [OF v] by (simp add: deliveries_step)
  also have "\<dots> = [position n st..<position n st'']"
    using le le' by (rule upt_append_upt)
  finally show ?case .
qed

text \<open>
  Attempts, deliveries and faults of a path that starts in a \<open>Sending\<close> state or in
  \<open>Done\<close>: a path that starts in \<open>AwaitingAck\<close> has the attempt of its first frame
  behind it.
\<close>

fun pending :: "arq_state \<Rightarrow> nat" where
  "pending (AwaitingAck k) = 1"
| "pending st = 0"

lemma arq_path_attempts:
  "arq_path n st p st' \<Longrightarrow>
   length (attempts p) + pending st = length (deliveries p) + faults p + pending st'"
proof (induction rule: arq_path.induct)
  case (path_nil st)
  show ?case by (simp add: faults_def)
next
  case (path_step st e st' p st'')
  from path_step.hyps(1) path_step.IH show ?case
    by (induction rule: arq_step.induct)
      (simp_all add: faults_def is_fault_def frame_at_def split: if_splits)
qed

section \<open>Runs\<close>

lemma arq_run_path:
  "arq_run n st ds = Some (p, rest) \<Longrightarrow> arq_path n st p Done \<and> ds = take (length p) ds @ rest"
proof (induction ds arbitrary: st p rest)
  case Nil
  then show ?case by (cases st) (auto intro: arq_path.intros)
next
  case (Cons r ds)
  show ?case
  proof (cases "arq_next n st r")
    case None
    with Cons.prems show ?thesis by (cases st) (auto intro: arq_path.intros)
  next
    case (Some t)
    then obtain e st' where t: "arq_next n st r = Some (e, st')" by (cases t) simp
    with Cons.prems obtain p' where run: "arq_run n st' ds = Some (p', rest)" and p: "p = (st, e) # p'"
      by (cases st) auto
    from Cons.IH [OF run] arq_next_sound [OF t] p show ?thesis
      by (auto intro: arq_path.intros)
  qed
qed

text \<open>A run on draws that are all at or above every threshold: no attempt is repeated.\<close>

definition clean_path :: "nat \<Rightarrow> nat \<Rightarrow> transition list" where
  "clean_path k n = concat (map (\<lambda>j. [(Sending j, FrameArrived), (AwaitingAck j, Delivered)]) [k..<n])"

lemma clean_path_step:
  "k < n \<Longrightarrow> clean_path k n = (Sending k, FrameArrived) # (AwaitingAck k, Delivered) # clean_path (Suc k) n"
  by (simp add: clean_path_def upt_conv_Cons)

lemma clean_path_empty [simp]: "clean_path n n = []"
  by (simp add: clean_path_def)

lemma arq_run_clean:
  "k \<le> n \<Longrightarrow> \<forall>r \<in> set ds. 3 / 10 \<le> r \<Longrightarrow> 2 * (n - k) \<le> length ds \<Longrightarrow>
   arq_run n (frame_at n k) ds = Some (clean_path k n, drop (2 * (n - k)) ds)"
proof (induction "n - k" arbitrary: k ds)
  case 0
  then show ?case by simp
next
  case (Suc d)
  then obtain r a ds' where ds: "ds = r # a # ds'"
    by (cases ds; cases "tl ds") auto
  from Suc.hyps(2) have k: "k < n" "Suc k \<le> n" "d = n - Suc k" by simp_all
  from Suc.prems ds k have "arq_run n (frame_at n (Suc k)) ds'
      = Some (clean_path (Suc k) n, drop (2 * (n - Suc k)) ds')"
    by (intro Suc.hyps(1)) simp_all
  moreover from k have "2 * (n - k) = Suc (Suc (2 * (n - Suc k)))" by simp
  ultimately show ?case
    using Suc.prems(2) ds k by (simp add: clean_path_step)
qed

text \<open>
  Whatever the first draws, enough clean draws after them complete the run: two
  for each frame that is not yet delivered.
\<close>

fun need :: "nat \<Rightarrow> arq_state \<Rightarrow> nat" where
  "need n (Sending k) = 2 * (n - k)"
| "need n (AwaitingAck k) = 2 * (n - k) - 1"
| "need n Done = 0"

lemma need_frame_at [simp]: "need n (frame_at n k) = 2 * (n - k)"
  by (simp add: frame_at_def)

lemma need_le: "need n st \<le> 2 * (n - position n st)"
  by (cases st) simp_all

lemma arq_run_replicate:
  "valid n st \<Longrightarrow> 3 / 10 \<le> g \<Longrightarrow> need n st \<le> m \<Longrightarrow>
   \<exists>p. arq_run n st (replicate m g) = Some (p, replicate (m - need n st) g)"
proof (induction m arbitrary: st)
  case 0
  then show ?case by (cases st) simp_all
next
  case (Suc m)
  show ?case
  proof (cases st)
    case (Sending k)
    with Suc.prems have "need n (AwaitingAck k) \<le> m"
      and "m - need n (AwaitingAck k) = Suc m - need n st" by simp_all
    with Suc.prems Sending Suc.IH [of "AwaitingAck k"] show ?thesis by auto
  next
    case (AwaitingAck k)
    with Suc.prems have "need n (frame_at n (Suc k)) \<le> m"
      and "m - need n (frame_at n (Suc k)) = Suc m - need n st" by simp_all
    with Suc.prems AwaitingAck Suc.IH [of "frame_at n (Suc k)"] show ?thesis by auto
  next
    case Done
    then show ?thesis by simp
  qed
qed

lemma arq_run_completes:
  "valid n st \<Longrightarrow> 3 / 10 \<le> g \<Longrightarrow> 2 * (n - position n st) \<le> m \<Longrightarrow>
   \<exists>p rest. arq_run n st (ds @ replicate m g) = Some (p, rest)
     \<and> m - 2 * (n - position n st) \<le> length rest"
proof (induction ds arbitrary: st)
  case Nil
  from need_le [of n st] Nil.prems have "need n st \<le> m" by simp
  with arq_run_replicate [of n st g m] Nil.prems obtain p where
    "arq_run n st (replicate m g) = Some (p, replicate (m - need n st) g)" by auto
  with need_le [of n st] show ?case by simp
next
  case (Cons r ds)
  show ?case
  proof (cases "arq_next n st r")
    case None
    then have "st = Done" by (cases st) simp_all
    then show ?thesis by simp
  next
    case (Some t)
    then obtain e st' where t: "arq_next n st r = Some (e, st')" by (cases t) simp
    then have step: "arq_step n st e st'" by (rule arq_next_sound)
    with Cons.prems have v: "valid n st'" and le: "position n st \<le> position n st'"
      by (simp_all add: arq_step_valid arq_step_position)
    from le Cons.prems have m: "2 * (n - position n st') \<le> m" by simp
    from Cons.IH [OF v Cons.prems(2) m] obtain p rest where
      run: "arq_run n st' (ds @ replicate m g) = Some (p, rest)"
      and rest: "m - 2 * (n - position n st') \<le> length rest" by auto
    from rest le have "m - 2 * (n - position n st) \<le> length rest" by simp
    with t run show ?thesis by (cases st) auto
  qed
qed

end
