(* ===== verification/ArqRefinement.thy ===== *)
theory ArqRefinement
  imports ArqSimulator ArqMachine
begin

text \<open>
  The loop of \<^verbatim>\<open>simulateTransmission\<close> implements the state machine of
  \<open>ArqMachine\<close>. The loop keeps the protocol state in the variable \<^verbatim>\<open>i\<close> alone
  and goes back to a frame by \<^verbatim>\<open>--i; continue\<close>, which the \<^verbatim>\<open>++i\<close> of the loop
  header undoes; the machine has explicit states. \<open>render\<close> gives the lines that
  the code writes for a transition of the machine, and \<open>replay\<close> the state in
  which the loop ends after a run of the machine. The refinement is an equation
  between the two on every list of draws, the exhausted ones included; the
  properties of paths then hold of what the code writes.
\<close>

section \<open>Transitions as console lines\<close>

fun render :: "transition \<Rightarrow> event list" where
  "render (Sending k, FrameLost) = [MsgSending (of_nat k), Wait 500, MsgFrameLost, Wait 500]"
| "render (Sending k, FrameCorrupted) = [MsgSending (of_nat k), Wait 500, MsgFrameCorrupted, Wait 500]"
| "render (Sending k, FrameArrived) = [MsgSending (of_nat k), Wait 500, MsgFrameReceived]"
| "render (AwaitingAck k, AckLost) = [MsgAckLost, Wait 500]"
| "render (AwaitingAck k, Delivered) = [MsgAckReceived, Wait 500]"
| "render t = []"

definition render_path :: "transition list \<Rightarrow> event list" where
  "render_path p = concat (map render p)"

definition replay :: "nat \<Rightarrow> rat list sim \<Rightarrow> transition list \<times> rat list \<Rightarrow> rat list sim" where
  "replay n s = (\<lambda>(p, rest). (logged (render_path p) rest s)\<lparr>idx := of_nat n\<rparr>)"

lemma render_path_simps [simp]:
  "render_path [] = []" "render_path (t # p) = render t @ render_path p"
  by (simp_all add: render_path_def)

lemma render_path_append [simp]: "render_path (p @ q) = render_path p @ render_path q"
  by (simp add: render_path_def)

lemma replay_Nil: "idx s = of_nat n \<Longrightarrow> replay n s ([], draws s) = s"
  by (simp add: replay_def logged_def)

lemma replay_idx_update [simp]: "replay n (s\<lparr>idx := j\<rparr>) = replay n s"
  by (simp add: replay_def fun_eq_iff)

lemma replay_Cons:
  "map_option (replay n s) (map_option (apfst ((#) t)) x)
     = map_option (replay n (logged (render t) ds s)) x"
  by (cases x) (auto simp: replay_def)

lemma replay_Cons2:
  "map_option (replay n s) (map_option (apfst ((#) t)) (map_option (apfst ((#) u)) x))
     = map_option (replay n (logged (render t @ render u) ds s)) x"
  by (cases x) (auto simp: replay_def)

section \<open>Indices below \<open>2 ^ 64\<close>\<close>

lemma unat_size_t: "k < 2 ^ 64 \<Longrightarrow> unat (of_nat k :: size_t) = k"
  by (rule of_nat_inverse [OF refl]) simp

lemma size_t_less: "n < 2 ^ 64 \<Longrightarrow> k \<le> n \<Longrightarrow> (of_nat k :: size_t) < of_nat n \<longleftrightarrow> k < n"
  by (simp add: word_less_nat_alt unat_size_t)

section \<open>The refinement\<close>

lemma send_loop_replay:
  assumes "n < 2 ^ 64" and "k \<le> n" and "idx s = of_nat k"
  shows "send_loop script (of_nat n) s = map_option (replay n s) (arq_run n (frame_at n k) (draws s))"
  using assms(2,3)
proof (induction "length (draws s)" arbitrary: s k rule: less_induct)
  case less
  show ?case
  proof (cases "k < n")
    case False
    with less.prems have "k = n" by simp
    with less.prems show ?thesis by (simp add: send_loop_done replay_Nil)
  next
    case True
    with assms(1) less.prems have lt: "idx s < of_nat n" by (simp add: size_t_less)
    note retry = less.hyps [OF _ less.prems(1)] less.prems(2) lt True
    from True have "Suc k \<le> n" by simp
    note advance = less.hyps [OF _ this] less.prems(2) lt True
    show ?thesis
    proof (cases "draws s" rule: draws_cases)
      case empty
      with lt True show ?thesis by (simp add: send_loop_empty)
    next
      case (lost r ds)
      with retry (1) [of "logged (fault_lines (idx s) MsgFrameLost) ds s"] retry (2-) show ?thesis
        by (simp add: send_loop_lost prob_defs fault_lines_def replay_Cons [where ds = ds])
    next
      case (corrupted r ds)
      with retry (1) [of "logged (fault_lines (idx s) MsgFrameCorrupted) ds s"] retry (2-)
      show ?thesis
        by (simp add: send_loop_corrupted prob_defs fault_lines_def replay_Cons [where ds = ds])
    next
      case (half r)
      with lt True show ?thesis by (simp add: send_loop_half prob_defs)
    next
      case (ack_lost r a ds)
      with retry (1) [of "logged (ack_lines (idx s) MsgAckLost) ds s"] retry (2-) show ?thesis
        by (simp add: send_loop_ack_lost prob_defs ack_lines_def replay_Cons2 [where ds = ds])
    next
      case (ack r a ds)
      with advance (1) [of "(logged (ack_lines (idx s) MsgAckReceived) ds s)\<lparr>idx := idx s + 1\<rparr>"]
        advance (2-)
      show ?thesis
        by (simp add: send_loop_ack prob_defs ack_lines_def replay_Cons2 [where ds = ds])
    qed
  qed
qed

definition initial :: "'g \<Rightarrow> 'g sim" where
  "initial gen = emit MsgStarted \<lparr>idx = 0, draws = gen, out = []\<rparr>"

lemma simulate_run:
  assumes "length frames < 2 ^ 64"
  shows "simulateTransmission script frames crcs checksum ds =
     (case arq_run (length frames) (frame_at (length frames) 0) ds of
        None \<Rightarrow> None
      | Some (p, []) \<Rightarrow> None
      | Some (p, c # rest) \<Rightarrow>
          Some \<lparr>idx = of_nat (length frames), draws = rest,
                out = MsgStarted # render_path p @ checksum_lines checksum c\<rparr>)"
  using send_loop_replay [OF assms, of 0 "initial ds"]
  by (simp add: simulateTransmission_def initial_def emit_def send_checksum_eq replay_def
      logged_def split: option.splits list.splits)

section \<open>What a path writes\<close>

fun expects :: "arq_state \<Rightarrow> size_t \<Rightarrow> bool" where
  "expects (AwaitingAck k) cur \<longleftrightarrow> cur = of_nat k"
| "expects st cur \<longleftrightarrow> True"

lemma acked_render_path:
  "arq_path n st p st' \<Longrightarrow> expects st cur \<Longrightarrow> (\<And>c. acked c es = []) \<Longrightarrow>
   acked cur (render_path p @ es) = map of_nat (deliveries p)"
proof (induction arbitrary: cur rule: arq_path.induct)
  case (path_nil st)
  then show ?case by simp
next
  case (path_step st e st' p st'')
  from path_step.hyps(1) path_step.prems path_step.IH [of "of_nat (position n st)"]
    path_step.IH [of cur]
  show ?case by (induction rule: arq_step.induct) (simp_all add: frame_at_def)
qed

lemma sent_render_path:
  "arq_path n st p st' \<Longrightarrow> sent (render_path p) = map of_nat (attempts p)"
proof (induction rule: arq_path.induct)
  case (path_nil st)
  show ?case by simp
next
  case (path_step st e st' p st'')
  from path_step.hyps(1) path_step.IH show ?case
    by (induction rule: arq_step.induct) simp_all
qed

lemma fault_count_render_path:
  "arq_path n st p st' \<Longrightarrow> fault_count (render_path p) = faults p"
proof (induction rule: arq_path.induct)
  case (path_nil st)
  show ?case by (simp add: faults_def)
next
  case (path_step st e st' p st'')
  from path_step.hyps(1) path_step.IH show ?case
    by (induction rule: arq_step.induct)
      (simp_all add: faults_def fault_count_def is_fault_def is_fault_line_def)
qed

lemma render_clean_path:
  "render_path (clean_path k n) = concat (map (\<lambda>j. ack_lines (of_nat j) MsgAckReceived) [k..<n])"
proof (induction "n - k" arbitrary: k)
  case 0
  then show ?case by (simp add: clean_path_def)
next
  case (Suc d)
  from Suc.hyps(2) have "k < n" "d = n - Suc k" by simp_all
  with Suc.hyps(1) show ?case by (simp add: clean_path_step upt_conv_Cons ack_lines_def)
qed

lemma simulate_path:
  assumes "length frames < 2 ^ 64"
    and "simulateTransmission script frames crcs checksum ds = Some s'"
  obtains p c where "arq_path (length frames) (frame_at (length frames) 0) p Done"
    and "out s' = MsgStarted # render_path p @ checksum_lines checksum c"
proof -
  from assms obtain p c rest where
    run: "arq_run (length frames) (frame_at (length frames) 0) ds = Some (p, c # rest)"
    and out: "out s' = MsgStarted # render_path p @ checksum_lines checksum c"
    by (auto simp: simulate_run split: option.splits list.splits)
  from arq_run_path [OF run] out show ?thesis by (intro that) simp_all
qed

lemma simulate_completes:
  assumes "length frames < 2 ^ 64" and "3 / 10 \<le> g"
  shows "\<exists>s'. simulateTransmission script frames crcs checksum
                 (ds @ replicate (2 * length frames + 1) g) = Some s'"
proof -
  from arq_run_completes [of "length frames" "frame_at (length frames) 0" g
      "2 * length frames + 1" ds] assms(2)
  obtain p rest where "arq_run (length frames) (frame_at (length frames) 0)
      (ds @ replicate (2 * length frames + 1) g) = Some (p, rest)" and "1 \<le> length rest"
    by auto
  then show ?thesis
    by (cases rest) (simp_all add: simulate_run [OF assms(1)])
qed

section \<open>Properties of the simulation\<close>

text \<open>
  C2: \<^verbatim>\<open>simulateTransmission\<close> is the state machine of the specification run on
  the draws, followed by the single attempt to deliver the checksum: the loop with
  its \<^verbatim>\<open>--i; continue\<close> ends in the state that \<open>replay\<close> builds from the run of
  the machine, and it runs out of draws exactly when the machine does.
\<close>

theorem simulateTransmission_refines:
  assumes "length frames < 2 ^ 64"
  shows "simulateTransmission script frames crcs checksum ds =
     Option.bind (arq_run (length frames) (frame_at (length frames) 0) ds)
       (\<lambda>run. send_checksum script checksum (replay (length frames) (initial ds) run))"
  using send_loop_replay [OF assms, of 0 "initial ds"]
  by (cases "arq_run (length frames) (frame_at (length frames) 0) ds")
    (simp_all add: simulateTransmission_def initial_def emit_def)

theorem simulateTransmission_refines_witness:
  "length [0 :: 100 word] < 2 ^ 64 \<and>
   simulateTransmission script [0] [0] 0x1234 [1 / 20, 1 / 2, 1 / 2, 1 / 2] =
     Some \<lparr>idx = 1, draws = [],
           out = [MsgStarted, MsgSending 0, Wait 500, MsgFrameLost, Wait 500,
                  MsgSending 0, Wait 500, MsgFrameReceived, MsgAckReceived, Wait 500,
                  MsgChecksumSending, Wait 500, MsgChecksumDelivered 0x1234, MsgFinished]\<rparr>"
  using simulateTransmission_refines [of "[0]" "[0]" "0x1234" "[1 / 20, 1 / 2, 1 / 2, 1 / 2]"]
  by (simp add: send_checksum_eq replay_def initial_def emit_def logged_def checksum_lines_def
      prob_defs)

text \<open>
  C11: when no draw is below \<open>0.30\<close> (no fault is drawn), \<open>2 N + 1\<close> draws are
  enough and all are used: every frame is attempted once and acknowledged, and the
  checksum is delivered, in \<open>N + 1\<close> attempts.
\<close>

theorem zero_loss_run:
  assumes "length frames < 2 ^ 64"
    and "length ds = 2 * length frames + 1"
    and "\<forall>r \<in> set ds. 3 / 10 \<le> r"
  shows "simulateTransmission script frames crcs checksum ds =
     Some \<lparr>idx = of_nat (length frames), draws = [],
           out = MsgStarted
             # concat (map (\<lambda>k. ack_lines (of_nat k) MsgAckReceived) [0..<length frames])
             @ [MsgChecksumSending, Wait 500, MsgChecksumDelivered checksum, MsgFinished]\<rparr>"
proof -
  from assms(2,3) have run: "arq_run (length frames) (frame_at (length frames) 0) ds
      = Some (clean_path 0 (length frames), [last ds])"
    by (cases ds rule: rev_cases) (simp_all add: arq_run_clean)
  from assms(2,3) have "3 / 10 \<le> last ds" by (cases ds rule: rev_cases) simp_all
  then have "\<not> last ds < CHECKSUM_ERROR_PROB" by (simp add: prob_defs)
  with run show ?thesis
    by (simp add: simulate_run [OF assms(1)] render_clean_path checksum_lines_def)
qed

theorem zero_loss_run_witness:
  "length [5 :: 100 word] < 2 ^ 64 \<and> length [1 / 2, 1 / 2, 1 / 2 :: rat] = 2 * length [5 :: 100 word] + 1
   \<and> simulateTransmission script [5] [7] 9 [1 / 2, 1 / 2, 1 / 2] =
     Some \<lparr>idx = 1, draws = [],
           out = [MsgStarted, MsgSending 0, Wait 500, MsgFrameReceived, MsgAckReceived, Wait 500,
                  MsgChecksumSending, Wait 500, MsgChecksumDelivered 9, MsgFinished]\<rparr>"
  using zero_loss_run [of "[5]" "[1 / 2, 1 / 2, 1 / 2]" "[7]" 9]
  by (simp add: ack_lines_def)

text \<open>
  C12: the simulation cannot be blocked: after any draws whatever, \<open>2 N + 1\<close> draws
  that are not below \<open>0.30\<close> make it return. The retries are not bounded, but they
  end as soon as the channel stops failing.
\<close>

theorem simulation_completes:
  assumes "length frames < 2 ^ 64" and "3 / 10 \<le> g"
  shows "\<exists>s'. simulateTransmission script frames crcs checksum
                 (ds @ replicate (2 * length frames + 1) g) = Some s'"
  using assms by (rule simulate_completes)

theorem simulation_completes_witness:
  "length [0 :: 100 word] < 2 ^ 64 \<and> (3 / 10 :: rat) \<le> 1 / 2 \<and>
   (\<exists>s'. simulateTransmission script [0] [0] 0 ([0, 1, 0] @ replicate (2 * length [0 :: 100 word] + 1) (1 / 2))
      = Some s')"
  using simulation_completes [of "[0]" "1 / 2" "[0]" 0 "[0, 1, 0]"]
  by simp

text \<open>
  C13: what the output reports is what the machine did. A simulation that returns
  has followed a path of the machine from the first frame to \<open>Done\<close>, on which
  every frame is delivered once and in order and is attempted again after each
  fault and only then; the frames that the output reports
  as acknowledged are the deliveries of this path, the frames it announces are the
  attempts of the path, and the faults it reports are the faults of the path.
\<close>

theorem output_follows_machine:
  assumes "length frames < 2 ^ 64"
    and "simulateTransmission script frames crcs checksum ds = Some s'"
  shows "\<exists>p. arq_path (length frames) (frame_at (length frames) 0) p Done
     \<and> deliveries p = [0..<length frames]
     \<and> length (attempts p) = length frames + faults p
     \<and> acked 0 (out s') = map of_nat (deliveries p)
     \<and> sent (out s') = map of_nat (attempts p)
     \<and> fault_count (out s') = faults p"
proof -
  from assms obtain p c where
    path: "arq_path (length frames) (frame_at (length frames) 0) p Done"
    and out: "out s' = MsgStarted # render_path p @ checksum_lines checksum c"
    by (rule simulate_path)
  from path have served: "deliveries p = [0..<length frames]"
    by (simp add: arq_path_deliveries)
  with arq_path_attempts [OF path] have "length (attempts p) = length frames + faults p"
    by (simp add: frame_at_def split: if_splits)
  moreover note served
  moreover from path
  have "acked 0 (render_path p @ checksum_lines checksum c) = map of_nat (deliveries p)"
    by (rule acked_render_path) (simp_all add: frame_at_def)
  ultimately show ?thesis
    using path out sent_render_path [OF path] fault_count_render_path [OF path]
    by (auto simp: fault_count_Cons is_fault_line_def)
qed

theorem output_follows_machine_witness:
  "length [0 :: 100 word] < 2 ^ 64
   \<and> (\<exists>p. arq_path 1 (Sending 0) p Done \<and> deliveries p = [0..<1]
        \<and> length (attempts p) = 1 + faults p
        \<and> acked 0 (out (the (simulateTransmission script [0] [] 0 [0, 1, 1, 1])))
            = map of_nat (deliveries p)
        \<and> sent (out (the (simulateTransmission script [0] [] 0 [0, 1, 1, 1])))
            = map of_nat (attempts p)
        \<and> fault_count (out (the (simulateTransmission script [0] [] 0 [0, 1, 1, 1]))) = faults p)"
  using output_follows_machine [of "[0]" "[]" 0 "[0, 1, 1, 1]"
    "the (simulateTransmission script [0] [] 0 [0, 1, 1, 1])"]
  by (simp add: simulate_run prob_defs frame_at_def)

text \<open>
  C36: the simulation reads neither the frames nor their check sequences: its
  outcome is a function of the number of frames, the checksum and the draws. The
  report of a corrupted frame is a draw, not a comparison of check sequences.
\<close>

theorem simulation_ignores_contents:
  assumes "length frames = length frames'"
  shows "simulateTransmission script frames crcs checksum ds = simulateTransmission script frames' crcs' checksum ds"
  using assms by (simp add: simulateTransmission_def)

theorem simulation_ignores_contents_witness:
  "length [0 :: 100 word] = length [1 :: 100 word]
   \<and> simulateTransmission script [0] [2] 9 [1, 1, 1] = simulateTransmission script [1] [3, 4] 9 [1, 1, 1]"
  using simulation_ignores_contents [of "[0]" "[1]" "[2]" 9 "[1, 1, 1]" "[3, 4]"]
  by simp

end
