(* ===== verification/ArqTrace.thy ===== *)
theory ArqTrace
  imports ArqRefinement
begin

text \<open>
  The shape of what \<^verbatim>\<open>simulateTransmission\<close> writes, as a grammar on lists of
  events. \<open>lines_ok n checksum k es\<close> says that \<open>es\<close> is a sequence of attempts
  that starts at frame \<open>k\<close>, each attempt being one of the four blocks that the
  loop body can write, with the index staying after a fault and moving by one
  after an acknowledgement, followed, once the index has reached \<open>n\<close>, by the four
  lines of the checksum. \<open>trace_ok n checksum es\<close> says that \<open>es\<close> is the opening
  line and then such a sequence from frame \<open>0\<close>. The indices are \<open>size_t\<close> values,
  as in the code. Both predicates are executable.

  The theorems hold for every random source: whatever the draws are and wherever
  they come from, an output that is produced has this shape, and what follows
  from the shape by induction on the grammar holds of it.
\<close>

section \<open>The grammar\<close>

fun checksum_ok :: "uint16_t \<Rightarrow> event list \<Rightarrow> bool" where
  "checksum_ok checksum [MsgChecksumSending, Wait ms, e, MsgFinished] \<longleftrightarrow>
     ms = 500 \<and> (e = MsgChecksumCorrupted \<or> e = MsgChecksumDelivered checksum)"
| "checksum_ok checksum es \<longleftrightarrow> False"

inductive lines_ok :: "size_t \<Rightarrow> uint16_t \<Rightarrow> size_t \<Rightarrow> event list \<Rightarrow> bool"
  for n checksum where
  finished: "\<not> k < n \<Longrightarrow> checksum_ok checksum es \<Longrightarrow> lines_ok n checksum k es"
| lost: "k < n \<Longrightarrow> lines_ok n checksum k es \<Longrightarrow>
    lines_ok n checksum k (MsgSending k # Wait 500 # MsgFrameLost # Wait 500 # es)"
| corrupted: "k < n \<Longrightarrow> lines_ok n checksum k es \<Longrightarrow>
    lines_ok n checksum k (MsgSending k # Wait 500 # MsgFrameCorrupted # Wait 500 # es)"
| ack_lost: "k < n \<Longrightarrow> lines_ok n checksum k es \<Longrightarrow>
    lines_ok n checksum k
      (MsgSending k # Wait 500 # MsgFrameReceived # MsgAckLost # Wait 500 # es)"
| acked: "k < n \<Longrightarrow> lines_ok n checksum (k + 1) es \<Longrightarrow>
    lines_ok n checksum k
      (MsgSending k # Wait 500 # MsgFrameReceived # MsgAckReceived # Wait 500 # es)"

code_pred lines_ok .

inductive_simps lines_ok_Sending: "lines_ok n checksum k (MsgSending j # es)"
inductive_simps lines_ok_Checksum: "lines_ok n checksum k (MsgChecksumSending # es)"

fun trace_ok :: "size_t \<Rightarrow> uint16_t \<Rightarrow> event list \<Rightarrow> bool" where
  "trace_ok n checksum (MsgStarted # es) \<longleftrightarrow> lines_ok n checksum 0 es"
| "trace_ok n checksum es \<longleftrightarrow> False"

section \<open>One iteration\<close>

lemma lines_ok_block:
  assumes "k < n"
  shows "lines_ok n c k es \<Longrightarrow> lines_ok n c k (fault_lines k MsgFrameLost @ es)"
    and "lines_ok n c k es \<Longrightarrow> lines_ok n c k (fault_lines k MsgFrameCorrupted @ es)"
    and "lines_ok n c k es \<Longrightarrow> lines_ok n c k (ack_lines k MsgAckLost @ es)"
    and "lines_ok n c (k + 1) es \<Longrightarrow> lines_ok n c k (ack_lines k MsgAckReceived @ es)"
  using assms by (auto simp: fault_lines_def ack_lines_def intro: lines_ok.intros)

text \<open>The loop body over any source, as one case distinction on its one or two draws.\<close>

lemma frame_body_unfold:
  "frame_body prob s = (case prob (draws s) of None \<Rightarrow> None | Some (r, g) \<Rightarrow>
     if r < LOST_FRAME_PROB then Some (retry (logged (fault_lines (idx s) MsgFrameLost) g s))
     else if r < LOST_FRAME_PROB + CORRUPTED_FRAME_PROB
       then Some (retry (logged (fault_lines (idx s) MsgFrameCorrupted) g s))
     else case prob g of None \<Rightarrow> None | Some (a, h) \<Rightarrow>
       if a < LOST_ACK_PROB then Some (retry (logged (ack_lines (idx s) MsgAckLost) h s))
       else Some (logged (ack_lines (idx s) MsgAckReceived) h s))"
  by (simp add: frame_body_def sim_defs split: option.splits)

text \<open>What the loop body has written and done to the index when it returns.\<close>

lemma frame_body_block:
  assumes "frame_body prob s = Some s'"
  obtains (lost) "idx s' + 1 = idx s" "out s' = out s @ fault_lines (idx s) MsgFrameLost"
    | (corrupted) "idx s' + 1 = idx s" "out s' = out s @ fault_lines (idx s) MsgFrameCorrupted"
    | (ack_lost) "idx s' + 1 = idx s" "out s' = out s @ ack_lines (idx s) MsgAckLost"
    | (ack) "idx s' = idx s" "out s' = out s @ ack_lines (idx s) MsgAckReceived"
  using assms unfolding frame_body_unfold
  by (auto simp: retry_def split: option.splits if_splits)

section \<open>The loop and the whole run\<close>

lemma send_loop_lines:
  assumes "send_loop prob n s = Some s'"
  shows "\<exists>es. out s' = out s @ es \<and> (\<forall>cs. checksum_ok c cs \<longrightarrow> lines_ok n c (idx s) (es @ cs))"
  using assms
proof (induction rule: send_loop_induct)
  case (finished s)
  then show ?case by (simp add: lines_ok.finished)
next
  case (step s s1 s')
  from step.IH obtain es where es: "out s' = out s1 @ es"
    "\<And>cs. checksum_ok c cs \<Longrightarrow> lines_ok n c (idx s1 + 1) (es @ cs)" by auto
  from step.hyps(2) show ?case
  proof (cases rule: frame_body_block)
    case lost
    with es step.hyps(1) show ?thesis by (auto intro: lines_ok_block)
  next
    case corrupted
    with es step.hyps(1) show ?thesis by (auto intro: lines_ok_block)
  next
    case ack_lost
    with es step.hyps(1) show ?thesis by (auto intro: lines_ok_block)
  next
    case ack
    with es step.hyps(1) show ?thesis by (auto intro: lines_ok_block)
  qed
qed

lemma send_checksum_lines:
  assumes "send_checksum prob checksum s = Some s'"
  shows "\<exists>cs. out s' = out s @ cs \<and> checksum_ok checksum cs"
  using assms
  by (auto simp: send_checksum_def sim_defs Let_def split: bind_splits option.splits if_splits)

lemma simulate_trace_ok:
  assumes "simulateTransmission prob frames crcs checksum gen = Some s"
  shows "trace_ok (of_nat (length frames)) checksum (out s)"
proof -
  let ?s0 = "emit MsgStarted \<lparr>idx = 0, draws = gen, out = []\<rparr>"
  from assms obtain s1 where loop: "send_loop prob (of_nat (length frames)) ?s0 = Some s1"
    and sum: "send_checksum prob checksum s1 = Some s"
    by (auto simp: simulateTransmission_def Let_def split: bind_splits)
  from send_checksum_lines [OF sum] obtain cs where
    cs: "out s = out s1 @ cs" "checksum_ok checksum cs" by auto
  from send_loop_lines [OF loop, of checksum] cs show ?thesis
    by (auto simp: emit_def)
qed

section \<open>What follows from the shape\<close>

text \<open>
  By induction on the grammar: the indices that a well-formed output announces are
  below the number of frames and never decrease, and the frames it reports as
  acknowledged are consecutive.
\<close>

lemma checksum_ok_quiet:
  assumes "checksum_ok c es"
  shows "sent es = []" "acked cur es = []" "fault_count es = 0"
    "count_list es MsgChecksumSending = 1" "last es = MsgFinished" "es \<noteq> []"
  using assms
  by (induction c es rule: checksum_ok.induct) (auto simp: fault_count_def is_fault_line_def)

lemma lines_ok_sent:
  assumes "lines_ok n c k es"
  shows "sorted (sent es) \<and> (\<forall>j \<in> set (sent es). k \<le> j \<and> j < n)"
  using assms
proof (induction rule: lines_ok.induct)
  case (acked k es)
  from \<open>k < n\<close> have "k \<le> k + 1" by (rule below_le_succ)
  with acked show ?case by (auto intro: order_trans)
qed (auto simp: checksum_ok_quiet)

lemma lines_ok_acked:
  assumes "lines_ok n c k es"
  shows "acked cur es = map of_nat [unat k..<unat n]"
  using assms
proof (induction arbitrary: cur rule: lines_ok.induct)
  case (finished k es)
  then show ?case by (simp add: checksum_ok_quiet word_less_nat_alt)
next
  case (acked k es)
  from \<open>k < n\<close> have "[unat k..<unat n] = unat k # [unat (k + 1)..<unat n]"
    by (simp add: unat_succ_below [of k n] word_less_nat_alt upt_conv_Cons)
  with acked.IH show ?case by simp
qed simp_all

lemma lines_ok_attempts:
  assumes "lines_ok n c k es"
  shows "length (sent es) = unat n - unat k + fault_count es"
  using assms
proof (induction rule: lines_ok.induct)
  case (finished k es)
  then show ?case by (simp add: checksum_ok_quiet word_less_nat_alt)
next
  case (acked k es)
  then show ?case
    by (simp add: unat_succ_below [of k n] word_less_nat_alt fault_count_Cons is_fault_line_def)
qed (simp_all add: fault_count_Cons is_fault_line_def)

lemma lines_ok_checksum:
  assumes "lines_ok n c k es"
  shows "count_list es MsgChecksumSending = 1 \<and> last es = MsgFinished \<and> es \<noteq> []"
  using assms by (induction rule: lines_ok.induct) (simp_all add: checksum_ok_quiet)

lemma trace_okE:
  assumes "trace_ok n c es"
  obtains es' where "es = MsgStarted # es'" "lines_ok n c 0 es'"
  using assms by (cases "(n, c, es)" rule: trace_ok.cases) auto

section \<open>The output of a simulation\<close>

text \<open>
  C3: the output of a simulation that returns is well formed, for every source
  of draws: the opening line, then attempts on frames \<open>0, 1, ...\<close> in which an
  index is repeated after each reported fault and incremented after each
  acknowledgement, and, once the index has reached the number of frames, the four
  lines of the checksum, ending with the end of the transmission.
\<close>

theorem output_well_formed:
  assumes "simulateTransmission prob frames crcs checksum gen = Some s"
  shows "trace_ok (of_nat (length frames)) checksum (out s)"
  using assms by (rule simulate_trace_ok)

theorem output_well_formed_witness:
  "simulateTransmission script [0, 1] [] 7 [1, 0, 1 / 5, 1, 1, 1, 1, 1] \<noteq> None
   \<and> trace_ok (of_nat (length [0 :: 100 word, 1])) 7
       (out (the (simulateTransmission script [0, 1] [] 7 [1, 0, 1 / 5, 1, 1, 1, 1, 1])))"
  using output_well_formed [of script "[0, 1]" "[]" 7 "[1, 0, 1 / 5, 1, 1, 1, 1, 1]"
    "the (simulateTransmission script [0, 1] [] 7 [1, 0, 1 / 5, 1, 1, 1, 1, 1])"]
  by (simp add: simulate_run prob_defs)

text \<open>
  C35: the indices that a simulation announces are indices of frames and never
  decrease, for every source of draws: an attempt is on a frame \<open>k < N\<close>, and on
  the frame of the attempt before it or on the next one.
\<close>

theorem announced_in_range:
  assumes "simulateTransmission prob frames crcs checksum gen = Some s"
  shows "sorted (sent (out s)) \<and> (\<forall>k \<in> set (sent (out s)). k < of_nat (length frames))"
proof -
  from simulate_trace_ok [OF assms] obtain es where
    "out s = MsgStarted # es" "lines_ok (of_nat (length frames)) checksum 0 es"
    by (rule trace_okE)
  with lines_ok_sent [of "of_nat (length frames)" checksum 0 es] show ?thesis by simp
qed

theorem announced_in_range_witness:
  "simulateTransmission script [0, 1] [] 7 [1, 0, 1 / 5, 1, 1, 1, 1, 1] \<noteq> None
   \<and> sent (out (the (simulateTransmission script [0, 1] [] 7 [1, 0, 1 / 5, 1, 1, 1, 1, 1])))
     = [0, 0, 0, 1]"
  using announced_in_range [of script "[0, 1]" "[]" 7 "[1, 0, 1 / 5, 1, 1, 1, 1, 1]"
    "the (simulateTransmission script [0, 1] [] 7 [1, 0, 1 / 5, 1, 1, 1, 1, 1])"]
  by (simp add: simulate_run prob_defs checksum_lines_def)

text \<open>
  C6: in a simulation that returns, the frames reported as acknowledged are the
  frames \<open>0, ..., N - 1\<close>, in this order and each once: no frame is skipped and
  none is acknowledged twice, whatever the faults and whatever the source of
  draws.
\<close>

theorem acknowledged_in_order:
  assumes "length frames < 2 ^ 64"
    and "simulateTransmission prob frames crcs checksum gen = Some s'"
  shows "acked 0 (out s') = map of_nat [0..<length frames]"
proof -
  from simulate_trace_ok [OF assms(2)] obtain es where
    "out s' = MsgStarted # es" "lines_ok (of_nat (length frames)) checksum 0 es"
    by (rule trace_okE)
  with lines_ok_acked [of "of_nat (length frames)" checksum 0 es 0] assms(1)
  show ?thesis by (simp add: unat_size_t)
qed

theorem acknowledged_in_order_witness:
  "length [0 :: 100 word, 1] < 2 ^ 64 \<and>
   acked 0 (out (the (simulateTransmission script [0, 1] [] 0 [1, 0, 1 / 5, 1, 1, 1, 1, 1]))) = [0, 1]"
  using acknowledged_in_order [of "[0, 1]" script "[]" 0 "[1, 0, 1 / 5, 1, 1, 1, 1, 1]"]
  by (simp add: simulate_run prob_defs)

text \<open>
  C33: the number of attempts equals the number of frames plus the number of
  reported faults: a frame is attempted again after each fault and only then.
\<close>

theorem attempts_are_frames_plus_faults:
  assumes "length frames < 2 ^ 64"
    and "simulateTransmission prob frames crcs checksum gen = Some s'"
  shows "length (sent (out s')) = length frames + fault_count (out s')"
proof -
  from simulate_trace_ok [OF assms(2)] obtain es where
    "out s' = MsgStarted # es" "lines_ok (of_nat (length frames)) checksum 0 es"
    by (rule trace_okE)
  with lines_ok_attempts [of "of_nat (length frames)" checksum 0 es] assms(1)
  show ?thesis by (simp add: unat_size_t fault_count_Cons is_fault_line_def)
qed

theorem attempts_are_frames_plus_faults_witness:
  "length [0 :: 100 word, 1] < 2 ^ 64 \<and>
   length (sent (out (the (simulateTransmission script [0, 1] [] 0 [1, 0, 1 / 5, 1, 1, 1, 1, 1])))) = 4"
  using attempts_are_frames_plus_faults [of "[0, 1]" script "[]" 0 "[1, 0, 1 / 5, 1, 1, 1, 1, 1]"]
  by (simp add: simulate_run prob_defs fault_count_def is_fault_line_def checksum_lines_def)

text \<open>
  The checksum is attempted once, after the last frame, and the simulation
  ends there whatever is drawn: the output has one announcement of the checksum,
  and its last line is the end of the transmission.
\<close>

theorem checksum_attempted_once:
  assumes "simulateTransmission prob frames crcs checksum gen = Some s'"
  shows "count_list (out s') MsgChecksumSending = 1 \<and> last (out s') = MsgFinished"
proof -
  from simulate_trace_ok [OF assms] obtain es where
    "out s' = MsgStarted # es" "lines_ok (of_nat (length frames)) checksum 0 es"
    by (rule trace_okE)
  with lines_ok_checksum [of "of_nat (length frames)" checksum 0 es] show ?thesis by simp
qed

theorem checksum_attempted_once_witness:
  "simulateTransmission script [0] [0] 0 [1, 1, 0] \<noteq> None \<and>
   count_list (out (the (simulateTransmission script [0] [0] 0 [1, 1, 0]))) MsgChecksumSending = 1
   \<and> last (out (the (simulateTransmission script [0] [0] 0 [1, 1, 0]))) = MsgFinished"
  using checksum_attempted_once [of script "[0]" "[0]" 0 "[1, 1, 0]"
    "the (simulateTransmission script [0] [0] 0 [1, 1, 0])"]
  by (simp add: simulate_run prob_defs checksum_lines_def)

end
