(* ===== verification/ArqStream.thy ===== *)
theory ArqStream
  imports ArqRefinement "HOL-Library.Stream"
begin

text \<open>
  The simulation on the random source of the program, which never runs dry: the
  source \<open>endless\<close> over an infinite stream of draws. On it \<open>send_loop\<close> can fail to
  return only by running for ever, and \<open>None\<close> is that run.

  The first part is about any two sources: when each value that one source yields
  is also yielded by the other, in states that stay related, every run that
  returns on the first returns on the second with the same index and the same
  lines (\<open>send_loop_follows\<close>). A script followed by a stream is the instance that
  matters: a run that returns on a script returns on every stream that starts with
  the script. The second part is the converse: a run that returns on a stream has
  consumed a finite prefix of it, and returns on this prefix as a script.
\<close>

section \<open>The endless source\<close>

definition endless :: "rat stream source" where
  "endless g = Some (shd g, stl g)"

definition with_draws :: "'h \<Rightarrow> 'g sim \<Rightarrow> 'h sim" where
  "with_draws h s = \<lparr>idx = idx s, draws = h, out = out s\<rparr>"

definition same_run :: "('g \<Rightarrow> 'h \<Rightarrow> bool) \<Rightarrow> 'g sim \<Rightarrow> 'h sim \<Rightarrow> bool" where
  "same_run R s t \<longleftrightarrow> idx s = idx t \<and> out s = out t \<and> R (draws s) (draws t)"

lemma with_draws_sel [simp]:
  "idx (with_draws h s) = idx s" "draws (with_draws h s) = h" "out (with_draws h s) = out s"
  by (simp_all add: with_draws_def)

lemma with_draws_same [simp]: "with_draws (draws s) s = s"
  by (simp add: with_draws_def)

lemma with_draws_updates [simp]:
  "with_draws h (emit e s) = emit e (with_draws h s)"
  "with_draws h (wait ms s) = wait ms (with_draws h s)"
  "with_draws h (retry s) = retry (with_draws h s)"
  "with_draws h (s\<lparr>idx := k\<rparr>) = (with_draws h s)\<lparr>idx := k\<rparr>"
  "with_draws h (s\<lparr>draws := g\<rparr>) = with_draws h s"
  "with_draws h (with_draws g s) = with_draws h s"
  by (simp_all add: with_draws_def emit_def wait_def retry_def)

lemma same_run_iff: "same_run R s t \<longleftrightarrow> t = with_draws (draws t) s \<and> R (draws s) (draws t)"
  by (cases s; cases t) (auto simp: same_run_def with_draws_def)

section \<open>Sources that yield the same values\<close>

definition yields_same :: "('g \<Rightarrow> 'h \<Rightarrow> bool) \<Rightarrow> 'g source \<Rightarrow> 'h source \<Rightarrow> bool" where
  "yields_same R p q \<longleftrightarrow>
     (\<forall>g h r g'. R g h \<longrightarrow> p g = Some (r, g') \<longrightarrow> (\<exists>h'. q h = Some (r, h') \<and> R g' h'))"

lemma yields_sameD:
  "yields_same R p q \<Longrightarrow> R g h \<Longrightarrow> p g = Some (r, g') \<Longrightarrow> \<exists>h'. q h = Some (r, h') \<and> R g' h'"
  unfolding yields_same_def by blast

lemma draw_follows:
  assumes step: "yields_same R p q"
    and run: "same_run R s t" and draw: "draw p s = Some (r, s')"
  shows "\<exists>t'. draw q t = Some (r, t') \<and> same_run R s' t'"
proof -
  from draw obtain g' where p: "p (draws s) = Some (r, g')" and s': "s' = s\<lparr>draws := g'\<rparr>"
    by (auto simp: draw_def split: option.splits)
  from run have "R (draws s) (draws t)" by (simp add: same_run_def)
  from yields_sameD [OF step this p] obtain h' where "q (draws t) = Some (r, h')" "R g' h'" by blast
  with run s' show ?thesis by (simp add: draw_def same_run_def)
qed

lemma same_run_ops [simp]:
  "same_run R (emit e s) (emit e t) \<longleftrightarrow> same_run R s t"
  "same_run R (wait ms s) (wait ms t) \<longleftrightarrow> same_run R s t"
  by (auto simp: same_run_def emit_def wait_def)

lemma same_run_retry [simp]: "same_run R s t \<Longrightarrow> same_run R (retry s) (retry t)"
  by (simp add: same_run_def retry_def)

lemma same_run_next [simp]:
  "same_run R s t \<Longrightarrow> same_run R (s\<lparr>idx := idx s + 1\<rparr>) (t\<lparr>idx := idx t + 1\<rparr>)"
  by (simp add: same_run_def)

lemma frame_body_follows:
  assumes step: "yields_same R p q"
    and run: "same_run R s t" and body: "frame_body p s = Some s'"
  shows "\<exists>t'. frame_body q t = Some t' \<and> same_run R s' t'"
proof -
  let ?s0 = "wait 500 (emit (MsgSending (idx s)) s)"
  let ?t0 = "wait 500 (emit (MsgSending (idx s)) t)"
  from run have idx: "idx t = idx s" by (simp add: same_run_def)
  from run have run0: "same_run R ?s0 ?t0" by simp
  from body obtain r s1 where d1: "draw p ?s0 = Some (r, s1)"
    by (auto simp: frame_body_def Let_def split: bind_splits)
  from draw_follows [OF step run0 d1] obtain t1 where
    e1: "draw q ?t0 = Some (r, t1)" and run1: "same_run R s1 t1" by blast
  show ?thesis
  proof (cases "r < LOST_FRAME_PROB + CORRUPTED_FRAME_PROB")
    case True
    with body d1 e1 run1 idx show ?thesis
      by (auto simp: frame_body_def Let_def split: if_splits)
  next
    case False
    with body d1 obtain a s2 where d2: "draw p (emit MsgFrameReceived s1) = Some (a, s2)"
      by (auto simp: frame_body_def Let_def prob_defs split: if_splits bind_splits)
    from run1 have "same_run R (emit MsgFrameReceived s1) (emit MsgFrameReceived t1)" by simp
    from draw_follows [OF step this d2] obtain t2 where
      e2: "draw q (emit MsgFrameReceived t1) = Some (a, t2)" and run2: "same_run R s2 t2" by blast
    from False body d1 d2 e1 e2 run2 idx show ?thesis
      by (auto simp: frame_body_def Let_def prob_defs split: if_splits)
  qed
qed

lemma send_loop_follows:
  assumes step: "yields_same R p q"
    and ret: "send_loop p n s = Some s'"
  shows "same_run R s t \<Longrightarrow> \<exists>t'. send_loop q n t = Some t' \<and> same_run R s' t'"
  using ret
proof (induction arbitrary: t rule: send_loop_induct)
  case (finished s)
  then show ?case by (simp add: send_loop_done same_run_def)
next
  case (step s s1 s')
  from frame_body_follows [OF assms(1) step.prems step.hyps(2)] obtain t1 where
    t1: "frame_body q t = Some t1" "same_run R s1 t1" by blast
  from step.prems have "idx t = idx s" by (simp add: same_run_def)
  with step.IH [of "t1\<lparr>idx := idx t1 + 1\<rparr>"] t1 step.hyps(1) show ?case
    by (subst send_loop.simps) simp
qed

lemma send_checksum_follows:
  assumes step: "yields_same R p q"
    and run: "same_run R s t" and ret: "send_checksum p checksum s = Some s'"
  shows "\<exists>t'. send_checksum q checksum t = Some t' \<and> same_run R s' t'"
proof -
  let ?s0 = "wait 500 (emit MsgChecksumSending s)"
  let ?t0 = "wait 500 (emit MsgChecksumSending t)"
  from run have run0: "same_run R ?s0 ?t0" by simp
  from ret obtain c s1 where d1: "draw p ?s0 = Some (c, s1)"
    by (auto simp: send_checksum_def Let_def split: bind_splits)
  from draw_follows [OF step run0 d1] obtain t1 where
    "draw q ?t0 = Some (c, t1)" "same_run R s1 t1" by blast
  with ret d1 show ?thesis
    by (auto simp: send_checksum_def Let_def)
qed

lemma simulate_follows:
  assumes step: "yields_same R p q" and gen: "R g h"
    and ret: "simulateTransmission p frames crcs checksum g = Some s'"
  shows "\<exists>t'. simulateTransmission q frames crcs checksum h = Some t' \<and> same_run R s' t'"
proof -
  from ret obtain s1 where loop: "send_loop p (of_nat (length frames)) (initial g) = Some s1"
    and sum: "send_checksum p checksum s1 = Some s'"
    by (auto simp: simulateTransmission_def initial_def split: bind_splits)
  from gen have "same_run R (initial g) (initial h)"
    by (simp add: initial_def same_run_def emit_def)
  from send_loop_follows [OF step loop this] obtain t1 where
    loop': "send_loop q (of_nat (length frames)) (initial h) = Some t1" and "same_run R s1 t1"
    by blast
  from send_checksum_follows [OF step this(2) sum] loop' show ?thesis
    by (auto simp: simulateTransmission_def initial_def)
qed

section \<open>A script, then a stream\<close>

lemma script_then_stream: "yields_same (\<lambda>ds h. h = ds @- rest) script endless"
  unfolding yields_same_def
proof (intro allI impI)
  fix ds :: "rat list" and h r ds'
  assume "h = ds @- rest" and "script ds = Some (r, ds')"
  then show "\<exists>h'. endless h = Some (r, h') \<and> h' = ds' @- rest"
    by (cases ds) (simp_all add: endless_def)
qed

lemma script_then_script: "yields_same (\<lambda>ds ds'. ds' = ds @ extra) script script"
  unfolding yields_same_def
proof (intro allI impI)
  fix ds ds' :: "rat list" and r ds1
  assume "ds' = ds @ extra" and "script ds = Some (r, ds1)"
  then show "\<exists>h'. script ds' = Some (r, h') \<and> h' = ds1 @ extra"
    by (cases ds) simp_all
qed

section \<open>What a run on a stream consumes\<close>

lemma with_draws_logged [simp]: "with_draws h (logged es g s) = logged es h (with_draws h s)"
  by (simp add: with_draws_def logged_def)

lemma frame_body_endless:
  "frame_body endless t =
     Some (let g = draws t; r = shd g; a = shd (stl g) in
           if r < LOST_FRAME_PROB then retry (logged (fault_lines (idx t) MsgFrameLost) (stl g) t)
           else if r < LOST_FRAME_PROB + CORRUPTED_FRAME_PROB
           then retry (logged (fault_lines (idx t) MsgFrameCorrupted) (stl g) t)
           else if a < LOST_ACK_PROB
           then retry (logged (ack_lines (idx t) MsgAckLost) (stl (stl g)) t)
           else logged (ack_lines (idx t) MsgAckReceived) (stl (stl g)) t)"
  by (simp add: frame_body_def sim_defs endless_def Let_def)

lemma frame_body_consumes:
  assumes "frame_body endless t = Some t1"
  obtains c where "draws t = c @- draws t1"
    and "\<And>rest. frame_body script (with_draws (c @ rest) t) = Some (with_draws rest t1)"
proof (cases "shd (draws t) < LOST_FRAME_PROB + CORRUPTED_FRAME_PROB")
  case True
  with assms show ?thesis
    by (intro that [of "[shd (draws t)]"])
      (auto simp: frame_body_endless frame_body_eq Let_def prob_defs with_draws_def logged_def
        retry_def split: if_splits)
next
  case False
  with assms show ?thesis
    by (intro that [of "[shd (draws t), shd (stl (draws t))]"])
      (auto simp: frame_body_endless frame_body_eq Let_def prob_defs with_draws_def logged_def
        retry_def split: if_splits)
qed

lemma send_loop_consumes:
  assumes "send_loop endless n t = Some t'"
  shows "\<exists>ds. draws t = ds @- draws t' \<and> send_loop script n (with_draws ds t) = Some (with_draws [] t')"
  using assms
proof (induction rule: send_loop_induct)
  case (finished t)
  then have "draws t = [] @- draws t" "send_loop script n (with_draws [] t) = Some (with_draws [] t)"
    by (simp_all add: send_loop_done)
  then show ?case by blast
next
  case (step t t1 t')
  from step.IH obtain ds1 where ds1: "draws t1 = ds1 @- draws t'"
    and run1: "send_loop script n (with_draws ds1 (t1\<lparr>idx := idx t1 + 1\<rparr>)) = Some (with_draws [] t')"
    by auto
  from step.hyps(2) obtain c where c: "draws t = c @- draws t1"
    and body: "frame_body script (with_draws (c @ ds1) t) = Some (with_draws ds1 t1)"
    by (rule frame_body_consumes) blast
  from step.hyps(1) body run1
  have "send_loop script n (with_draws (c @ ds1) t) = Some (with_draws [] t')"
    by (subst send_loop.simps) simp
  with c ds1 show ?case by (intro exI [of _ "c @ ds1"]) simp
qed

lemma send_checksum_endless:
  "send_checksum endless checksum t =
     Some (logged (checksum_lines checksum (shd (draws t))) (stl (draws t)) t)"
  by (simp add: send_checksum_def checksum_lines_def sim_defs endless_def)

lemma initial_sel [simp]:
  "idx (initial g) = 0" "draws (initial g) = g" "out (initial g) = [MsgStarted]"
  by (simp_all add: initial_def emit_def)

lemma with_draws_initial [simp]: "with_draws h (initial g) = initial h"
  by (simp add: with_draws_def initial_def emit_def)

lemma simulate_unfold:
  "simulateTransmission p frames crcs checksum g =
     Option.bind (send_loop p (of_nat (length frames)) (initial g)) (send_checksum p checksum)"
  by (simp add: simulateTransmission_def initial_def)

lemma simulate_consumes:
  assumes "simulateTransmission endless frames crcs checksum g = Some t"
  shows "\<exists>ds. g = ds @- draws t
    \<and> simulateTransmission script frames crcs checksum ds = Some (with_draws [] t)"
proof -
  from assms obtain t1 where loop: "send_loop endless (of_nat (length frames)) (initial g) = Some t1"
    and t: "t = logged (checksum_lines checksum (shd (draws t1))) (stl (draws t1)) t1"
    by (auto simp: simulate_unfold send_checksum_endless split: bind_splits)
  let ?c = "shd (draws t1)"
  from send_loop_consumes [OF loop] obtain ds where ds: "g = ds @- draws t1"
    and run: "send_loop script (of_nat (length frames)) (initial ds) = Some (with_draws [] t1)"
    by auto
  have "same_run (\<lambda>ds ds'. ds' = ds @ [?c]) (initial ds) (initial (ds @ [?c]))"
    by (simp add: same_run_def)
  from send_loop_follows [OF script_then_script run this] obtain u where
    u: "send_loop script (of_nat (length frames)) (initial (ds @ [?c])) = Some u"
    and "same_run (\<lambda>ds ds'. ds' = ds @ [?c]) (with_draws [] t1) u" by blast
  then have "u = with_draws [?c] t1"
    by (cases u) (simp add: same_run_def with_draws_def)
  with u t have "simulateTransmission script frames crcs checksum (ds @ [?c]) = Some (with_draws [] t)"
    by (simp add: simulate_unfold send_checksum_eq)
  moreover from ds t have "g = (ds @ [?c]) @- draws t" by simp
  ultimately show ?thesis by blast
qed

section \<open>Runs that do not return\<close>

lemma send_loop_stuck:
  assumes "send_loop endless n t = Some t'"
  shows "\<not> (idx t < n \<and> (\<forall>r \<in> sset (draws t). r < 3 / 10))"
  using assms
proof (induction rule: send_loop_induct)
  case (finished t)
  then show ?case by simp
next
  case (step t t1 t')
  show ?case
  proof
    assume stuck: "idx t < n \<and> (\<forall>r \<in> sset (draws t). r < 3 / 10)"
    then have "shd (draws t) < 3 / 10" and rest: "\<forall>r \<in> sset (stl (draws t)). r < 3 / 10"
      by (simp_all add: shd_sset stl_sset)
    with step.hyps(2) have "idx t1 + 1 = idx t" "draws t1 = stl (draws t)"
      by (auto simp: frame_body_endless Let_def prob_defs retry_def)
    with step.IH stuck rest show False by simp
  qed
qed

lemma simulate_stuck:
  assumes "frames \<noteq> []" and "length frames < 2 ^ 64" and "\<forall>r \<in> sset g. r < 3 / 10"
  shows "simulateTransmission endless frames crcs checksum g = None"
proof (cases "send_loop endless (of_nat (length frames)) (initial g)")
  case None
  then show ?thesis by (simp add: simulate_unfold)
next
  case (Some t')
  from assms(1,2) have "(0 :: size_t) < of_nat (length frames)"
    using size_t_less [of "length frames" 0] by simp
  with send_loop_stuck [OF Some] assms(3) show ?thesis by simp
qed

lemma simulate_stream_completes:
  assumes "length frames < 2 ^ 64" and "3 / 10 \<le> c"
  shows "\<exists>t. simulateTransmission endless frames crcs checksum
               (ds @- replicate (2 * length frames + 1) c @- g) = Some t"
proof -
  from simulate_completes [OF assms] obtain s where
    "simulateTransmission script frames crcs checksum (ds @ replicate (2 * length frames + 1) c) = Some s"
    by blast
  from simulate_follows [OF script_then_stream _ this, of _ g] show ?thesis
    by (auto simp: shift_append)
qed

section \<open>Properties of the simulation on a stream\<close>

text \<open>
  C14: the simulation on an endless stream of draws returns exactly when it returns
  on a finite prefix of the stream used as a script, with the same index and the
  same lines; the generator is left at the rest of the stream. The scripts are
  therefore a complete account of the runs of the program that return.
\<close>

theorem stream_run_is_script_run:
  "simulateTransmission endless frames crcs checksum g = Some t \<longleftrightarrow>
     (\<exists>ds. g = ds @- draws t
        \<and> simulateTransmission script frames crcs checksum ds = Some (with_draws [] t))"
proof
  assume "simulateTransmission endless frames crcs checksum g = Some t"
  then show "\<exists>ds. g = ds @- draws t
      \<and> simulateTransmission script frames crcs checksum ds = Some (with_draws [] t)"
    by (rule simulate_consumes)
next
  assume "\<exists>ds. g = ds @- draws t
      \<and> simulateTransmission script frames crcs checksum ds = Some (with_draws [] t)"
  then obtain ds where g: "g = ds @- draws t"
    and ret: "simulateTransmission script frames crcs checksum ds = Some (with_draws [] t)" by blast
  from simulate_follows [OF script_then_stream _ ret, of g "draws t"] g obtain t' where
    "simulateTransmission endless frames crcs checksum g = Some t'"
    "same_run (\<lambda>ds h. h = ds @- draws t) (with_draws [] t) t'" by blast
  then show "simulateTransmission endless frames crcs checksum g = Some t"
    by (cases t; cases t') (simp add: same_run_def with_draws_def)
qed

text \<open>
  C15: the simulation can run for ever. On a stream whose draws are all below
  \<open>0.30\<close> the first frame is lost or corrupted at every attempt, and the simulation
  of at least one frame does not return.
\<close>

theorem simulation_never_returns:
  assumes "frames \<noteq> []" and "length frames < 2 ^ 64" and "\<forall>r \<in> sset g. r < 3 / 10"
  shows "simulateTransmission endless frames crcs checksum g = None"
  using assms by (rule simulate_stuck)

theorem simulation_never_returns_witness:
  "[0 :: 100 word] \<noteq> [] \<and> length [0 :: 100 word] < 2 ^ 64
   \<and> simulateTransmission endless [0] [0] 0 (sconst 0) = None"
  using simulation_never_returns [of "[0]" "sconst 0" "[0]" 0]
  by simp

text \<open>
  The simulation on a stream returns as soon as the channel stops failing for
  \<open>2 N + 1\<close> draws: whatever was drawn before and whatever would be drawn after.
\<close>

theorem stream_simulation_completes:
  assumes "length frames < 2 ^ 64" and "3 / 10 \<le> c"
  shows "\<exists>t. simulateTransmission endless frames crcs checksum
               (ds @- replicate (2 * length frames + 1) c @- g) = Some t"
  using assms by (rule simulate_stream_completes)

theorem stream_simulation_completes_witness:
  "length [0 :: 100 word] < 2 ^ 64 \<and> (3 / 10 :: rat) \<le> 1
   \<and> (\<exists>t. simulateTransmission endless [0] [0] 0
          ([0, 0] @- replicate (2 * length [0 :: 100 word] + 1) 1 @- sconst 0) = Some t)"
  using stream_simulation_completes [of "[0]" 1 "[0]" 0 "[0, 0]" "sconst 0"]
  by simp

end
