(* ===== verification/BitsetProgram.thy ===== *)
theory BitsetProgram
  imports CrcEngine Checksum
begin

text \<open>
  The functions of the second program, \<^verbatim>\<open>src/bitset.cpp\<close>. They are those of
  \<^verbatim>\<open>viba.cpp\<close> written a second time, with three differences: \<^verbatim>\<open>splitIntoFrames\<close>
  takes the frame size as an argument, \<^verbatim>\<open>calculateCRC\<close> takes the key as an
  argument, and \<^verbatim>\<open>toBitsets\<close> is called \<^verbatim>\<open>boolFramesTobitsetFrames\<close>. Each function
  is modelled from its own lines under its own name with the suffix \<open>_b\<close>, over the
  constants of \<^verbatim>\<open>bitset.cpp\<close> (also with the suffix), and proved equal to the
  function of \<^verbatim>\<open>viba.cpp\<close> on the arguments that \<^verbatim>\<open>main\<close> passes.

  The loop of \<^verbatim>\<open>splitIntoFrames\<close> advances by the frame size, so with a frame size
  of zero it never ends. \<open>split_loop_b\<close> is therefore a partial function in the
  \<open>option\<close> monad: \<open>None\<close> is the loop that does not return. It is proved to return
  for every positive frame size and not to return for the frame size zero on a
  sequence that is not empty.
\<close>

section \<open>Constants\<close>

definition FRAME_SIZE_b :: nat where
  "FRAME_SIZE_b = 100"

definition CRC_SIZE_b :: nat where
  "CRC_SIZE_b = 16"

definition TOTAL_SIZE_b :: nat where
  "TOTAL_SIZE_b = FRAME_SIZE_b + CRC_SIZE_b"

definition crcKey_b :: "17 word" where
  "crcKey_b = bs_string ''10001000000100001''"

section \<open>calculateChecksum\<close>

definition calculateChecksum_b :: "uint16_t list \<Rightarrow> uint16_t" where
  "calculateChecksum_b crcResultsHex =
     (let acc = fold (\<lambda>crc acc.
                  let acc = acc + ucast crc
                  in if acc > 0xFFFF then (acc AND 0xFFFF) + 1 else acc) crcResultsHex (0 :: uint32_t);
          checksum = (ucast (NOT acc) :: uint16_t);
          checksum = checksum + 1
      in checksum)"

section \<open>crcDivision and calculateCRC\<close>

definition crcDivision_b :: "bool option \<Rightarrow> 16 word \<Rightarrow> 17 word \<Rightarrow> 16 word option" where
  "crcDivision_b oob bits key = do {
     b0 \<leftarrow> bs_read oob bits 0;
     if b0 = False then
       for_each [1..<CRC_SIZE_b + 1] (\<lambda>i result_bits. do {
         b \<leftarrow> bs_read oob bits i;
         bs_write result_bits (i - 1) (False \<noteq> b)
       }) 0
     else
       for_each [1..<CRC_SIZE_b + 1] (\<lambda>i result_bits. do {
         k \<leftarrow> bs_read oob key i;
         b \<leftarrow> bs_read oob bits i;
         bs_write result_bits (i - 1) (k \<noteq> b)
       }) 0
   }"

definition crc_frame_b :: "bool option \<Rightarrow> 17 word \<Rightarrow> 100 word \<Rightarrow> 16 word option" where
  "crc_frame_b oob key frame = do {
     tmp_frame \<leftarrow> for_each [0..<FRAME_SIZE_b] (\<lambda>i tmp_frame. do {
       v \<leftarrow> bs_read oob frame (FRAME_SIZE_b - 1 - i);
       bs_write (tmp_frame :: 116 word) (TOTAL_SIZE_b - 1 - i) v
     }) 0;
     tmp_bits \<leftarrow> for_each [0..<CRC_SIZE_b] (\<lambda>i tmp_bits. do {
       v \<leftarrow> bs_read oob tmp_frame i;
       bs_write (tmp_bits :: 16 word) i v
     }) 0;
     tmp_bits \<leftarrow> for_each [CRC_SIZE_b..<TOTAL_SIZE_b] (\<lambda>i tmp_bits. do {
       tmp_bits \<leftarrow> crcDivision_b oob tmp_bits key;
       v \<leftarrow> bs_read oob tmp_frame i;
       bs_set (bs_shl tmp_bits 1) 0 v
     }) tmp_bits;
     crcDivision_b oob tmp_bits key
   }"

definition calculateCRC_b :: "bool option \<Rightarrow> 100 word list \<Rightarrow> 17 word \<Rightarrow> 16 word list option" where
  "calculateCRC_b oob frames key =
     for_each frames (\<lambda>frame crc_results. do {
       tmp_bits \<leftarrow> crc_frame_b oob key frame;
       Some (crc_results @ [tmp_bits])
     }) []"

section \<open>boolFramesTobitsetFrames\<close>

definition boolFramesTobitsetFrames :: "bool list list \<Rightarrow> 100 word list option" where
  "boolFramesTobitsetFrames boolFrames =
     for_each boolFrames (\<lambda>frame bitsetFrames. do {
       b \<leftarrow> for_each [0..<length frame]
              (\<lambda>i b. bs_write b (unat (of_nat FRAME_SIZE_b - 1 - of_nat i :: size_t)) (frame ! i)) 0;
       Some (bitsetFrames @ [b])
     }) []"

section \<open>splitIntoFrames\<close>

function pad_frame_b :: "nat \<Rightarrow> bool list \<Rightarrow> bool list" where
  "pad_frame_b frameSize frame =
     (if length frame < frameSize then pad_frame_b frameSize (frame @ [False]) else frame)"
  by pat_completeness auto
termination
  by (relation "measure (\<lambda>(frameSize, frame). frameSize - length frame)") auto

declare pad_frame_b.simps [simp del]

partial_function (option) split_loop_b ::
    "bool list \<Rightarrow> nat \<Rightarrow> nat \<Rightarrow> bool list list \<Rightarrow> bool list list option" where
  "split_loop_b bits frameSize i frames =
     (if i < length bits
      then split_loop_b bits frameSize (i + frameSize)
             (frames @ [pad_frame_b frameSize
                          (vec_range bits i (min (i + frameSize) (length bits)))])
      else Some frames)"

definition splitIntoFrames_b :: "bool list \<Rightarrow> nat \<Rightarrow> bool list list option" where
  "splitIntoFrames_b bits frameSize = split_loop_b bits frameSize 0 []"

section \<open>bytesToBits\<close>

definition bytesToBits_b :: "bool option \<Rightarrow> byte list \<Rightarrow> bool list option" where
  "bytesToBits_b oob data =
     for_each data (\<lambda>byte.
       for_each (rev [0..<8]) (\<lambda>i bits. do {
         v \<leftarrow> bs_read oob (bs_from_ulong byte :: 8 word) i;
         Some (bits @ [v])
       })) []"

section \<open>Agreement with the functions of the first program\<close>

lemma constants_b [simp]:
  "FRAME_SIZE_b = FRAME_SIZE" "CRC_SIZE_b = CRC_SIZE" "TOTAL_SIZE_b = TOTAL_SIZE" "crcKey_b = crcKey"
  by (simp_all add: FRAME_SIZE_b_def CRC_SIZE_b_def TOTAL_SIZE_b_def crcKey_b_def size_defs crcKey_def)

lemma calculateChecksum_b_eq: "calculateChecksum_b = calculateChecksum"
  by (simp add: fun_eq_iff calculateChecksum_b_def calculateChecksum_def accumulate_def
      add_fold_def Let_def)

lemma crcDivision_b_eq: "crcDivision_b = crcDivision"
  by (simp add: fun_eq_iff crcDivision_b_def crcDivision_def)

lemma crc_frame_b_eq: "crc_frame_b oob crcKey = crc_frame oob"
  by (simp add: fun_eq_iff crc_frame_b_def crc_frame_def crcDivision_b_eq)

lemma calculateCRC_b_eq: "calculateCRC_b oob frames crcKey = calculateCRC oob frames"
  by (simp add: calculateCRC_b_def calculateCRC_def crc_frame_b_eq)

lemma boolFramesTobitsetFrames_eq: "boolFramesTobitsetFrames = toBitsets"
  by (simp add: fun_eq_iff boolFramesTobitsetFrames_def toBitsets_def toBitset_def)

lemma bytesToBits_b_eq: "bytesToBits_b = bytesToBits"
  by (simp add: fun_eq_iff bytesToBits_b_def bytesToBits_def)

section \<open>splitIntoFrames for every frame size\<close>

text \<open>
  The reference for a frame size \<open>n\<close>: the sequence cut into pieces of \<open>n\<close> bits,
  the last one filled with zeros. For \<open>n = 0\<close> there is no such cut, and \<open>chunks\<close> is
  empty.
\<close>

function chunks :: "nat \<Rightarrow> bool list \<Rightarrow> bool list list" where
  "chunks n bits =
     (if n = 0 \<or> bits = [] then []
      else (take n bits @ replicate (n - length bits) False) # chunks n (drop n bits))"
  by pat_completeness auto
termination
  by (relation "measure (\<lambda>(n, bits). length bits)") auto

declare chunks.simps [simp del]

lemma chunks_Nil [simp]: "chunks n [] = []"
  by (simp add: chunks.simps)

lemma chunks_step:
  "0 < n \<Longrightarrow> bits \<noteq> [] \<Longrightarrow>
   chunks n bits = (take n bits @ replicate (n - length bits) False) # chunks n (drop n bits)"
  by (subst chunks.simps) simp

lemma chunks_frame_size: "chunks FRAME_SIZE bits = chunk_frames bits"
proof (induction bits rule: chunk_frames.induct)
  case (1 bits)
  then show ?case
    by (cases "bits = []") (simp_all add: chunks_step chunk_frames_step FRAME_SIZE_def)
qed

lemma pad_frame_b_eq: "pad_frame_b n frame = frame @ replicate (n - length frame) False"
proof (induction n frame rule: pad_frame_b.induct)
  case (1 n frame)
  show ?case
  proof (cases "length frame < n")
    case True
    then have "n - length frame = Suc (n - Suc (length frame))" by simp
    with True 1 show ?thesis
      by (subst pad_frame_b.simps) (simp add: replicate_app_Cons_same)
  next
    case False
    then show ?thesis by (subst pad_frame_b.simps) simp
  qed
qed

lemma pad_window_b:
  "i < length bits \<Longrightarrow>
   pad_frame_b n (vec_range bits i (min (i + n) (length bits)))
     = take n (drop i bits) @ replicate (n - length (drop i bits)) False"
  by (cases "i + n \<le> length bits") (auto simp: pad_frame_b_eq vec_range_def min_def)

lemma split_loop_b_total:
  "0 < n \<Longrightarrow> split_loop_b bits n i frames = Some (frames @ chunks n (drop i bits))"
proof (induction "length bits - i" arbitrary: i frames rule: less_induct)
  case less
  show ?case
  proof (cases "i < length bits")
    case True
    with less.prems have "length bits - (i + n) < length bits - i" by simp
    from less.hyps [OF this less.prems] True less.prems show ?thesis
      by (subst split_loop_b.simps)
        (simp add: pad_window_b chunks_step [of n "drop i bits"] add.commute)
  next
    case False
    then show ?thesis by (subst split_loop_b.simps) simp
  qed
qed

lemma split_loop_b_stuck:
  assumes "split_loop_b bits n i frames = Some y"
  shows "\<not> (n = 0 \<and> i < length bits)"
proof (rule split_loop_b.raw_induct
    [where P = "\<lambda>bits n i frames y. \<not> (n = 0 \<and> i < length bits)", OF _ assms])
  fix f and bits :: "bool list" and n i :: nat and frames y :: "bool list list"
  assume IH: "\<And>bits n i frames y. f bits n i frames = Some y \<Longrightarrow> \<not> (n = 0 \<and> i < length bits)"
    and eq: "(if i < length bits
       then f bits n (i + n)
              (frames @ [pad_frame_b n (vec_range bits i (min (i + n) (length bits)))])
       else Some frames) = Some y"
  show "\<not> (n = 0 \<and> i < length bits)"
  proof
    assume stuck: "n = 0 \<and> i < length bits"
    with eq have "f bits n (i + n)
        (frames @ [pad_frame_b n (vec_range bits i (min (i + n) (length bits)))]) = Some y"
      by simp
    from IH [OF this] stuck show False by simp
  qed
qed

lemma splitIntoFrames_b_eq:
  "splitIntoFrames_b bits n = (if n = 0 \<and> bits \<noteq> [] then None else Some (chunks n bits))"
proof (cases "n = 0")
  case True
  show ?thesis
  proof (cases bits)
    case Nil
    then show ?thesis by (simp add: splitIntoFrames_b_def split_loop_b.simps)
  next
    case (Cons b bs)
    with True split_loop_b_stuck [of bits n 0 "[]"] show ?thesis
      by (cases "split_loop_b bits n 0 []") (auto simp: splitIntoFrames_b_def)
  qed
next
  case False
  then show ?thesis by (simp add: splitIntoFrames_b_def split_loop_b_total)
qed

lemma ceil_div_step:
  assumes "0 < n" and "0 < l"
  shows "(l + (n - 1)) div n = Suc ((l - n + (n - 1)) div n)"
proof (cases "n \<le> l")
  case True
  with assms have "l + (n - 1) = (l - n + (n - 1)) + n" by simp
  with assms show ?thesis by (simp only: div_add_self2)
next
  case False
  with assms have "(l + (n - 1)) div n = 1" by (intro div_nat_eqI) simp_all
  with False assms show ?thesis by simp
qed

lemma length_chunks:
  "0 < n \<Longrightarrow> length (chunks n bits) = (length bits + (n - 1)) div n"
proof (induction n bits rule: chunks.induct)
  case (1 n bits)
  note IH = this(1) and pos = this(2)
  show ?case
  proof (cases "bits = []")
    case True
    with pos show ?thesis by simp
  next
    case False
    with pos IH ceil_div_step [of n "length bits"] show ?thesis
      by (simp add: chunks_step)
  qed
qed

lemma chunks_all_full: "0 < n \<Longrightarrow> f \<in> set (chunks n bits) \<Longrightarrow> length f = n"
proof (induction n bits rule: chunks.induct)
  case (1 n bits)
  then show ?case
    by (cases "bits = []") (auto simp: chunks_step)
qed

section \<open>Properties of the second program's functions\<close>

text \<open>
  C30: for every positive frame size \<^verbatim>\<open>splitIntoFrames\<close> of \<^verbatim>\<open>bitset.cpp\<close> returns:
  it yields \<open>ceil (length bits / frameSize)\<close> frames of exactly \<open>frameSize\<close> bits.
\<close>

theorem splitIntoFrames_b_total:
  assumes "0 < frameSize"
  shows "\<exists>frames. splitIntoFrames_b bits frameSize = Some frames
           \<and> length frames = (length bits + (frameSize - 1)) div frameSize
           \<and> list_all (\<lambda>f. length f = frameSize) frames"
  using assms by (simp add: splitIntoFrames_b_eq length_chunks list_all_iff chunks_all_full)

theorem splitIntoFrames_b_total_witness:
  "(0 :: nat) < 2 \<and> splitIntoFrames_b [True, True, True] 2 = Some [[True, True], [True, False]]"
  using splitIntoFrames_b_total [of 2 "[True, True, True]"]
  by (simp add: splitIntoFrames_b_eq chunks_step)

text \<open>
  C31: with the frame size zero \<^verbatim>\<open>splitIntoFrames\<close> of \<^verbatim>\<open>bitset.cpp\<close> does not return
  on any sequence that is not empty: the loop variable does not advance.
\<close>

theorem splitIntoFrames_b_zero_diverges:
  assumes "bits \<noteq> []"
  shows "splitIntoFrames_b bits 0 = None"
  using assms by (simp add: splitIntoFrames_b_eq)

theorem splitIntoFrames_b_zero_diverges_witness:
  "[True] \<noteq> [] \<and> splitIntoFrames_b [True] 0 = None"
  using splitIntoFrames_b_zero_diverges [of "[True]"] by simp

end
