(* ===== verification/Console.thy ===== *)
theory Console
  imports StdBitset ArqSimulator
begin

text \<open>
  The text that the programs write. \<open>show_nat base n\<close> is what \<^verbatim>\<open>operator<<\<close> writes
  for an unsigned integer: its digits in the base, the most significant first,
  without leading zeros, with upper-case letters for the digits from ten on (the
  sources set \<^verbatim>\<open>uppercase\<close> together with \<^verbatim>\<open>hex\<close>; in base ten the flag has no effect).
  \<open>read_nat\<close> reads such a text back. \<open>event_text\<close> is the text of each line of the
  simulation, as the bytes of the string literals of \<^verbatim>\<open>simulateTransmission\<close>
  (the source file is in UTF-8; a byte outside printable ASCII is written \<open>CHR 0x..\<close>),
  with the index in base ten and the checksum in base sixteen. A delay writes
  nothing.

  The lemmas show that nothing is lost in the text: a number is read back from its
  digits, and the text of a line determines the line.
\<close>

section \<open>Numbers\<close>

definition digit_char :: "nat \<Rightarrow> char" where
  "digit_char d = ''0123456789ABCDEF'' ! d"

definition digit_val :: "char \<Rightarrow> nat option" where
  "digit_val = map_of (zip ''0123456789ABCDEF'' [0..<16])"

function show_nat :: "nat \<Rightarrow> nat \<Rightarrow> string" where
  "show_nat base n =
     (if base < 2 \<or> n < base then [digit_char n]
      else show_nat base (n div base) @ [digit_char (n mod base)])"
  by pat_completeness auto
termination
  by (relation "measure snd") auto

declare show_nat.simps [simp del]

definition read_digit :: "nat \<Rightarrow> char \<Rightarrow> nat option \<Rightarrow> nat option" where
  "read_digit base c acc = do {
     a \<leftarrow> acc;
     d \<leftarrow> digit_val c;
     if d < base then Some (a * base + d) else None
   }"

definition read_nat :: "nat \<Rightarrow> string \<Rightarrow> nat option" where
  "read_nat base s = (if s = [] then None else fold (read_digit base) s (Some 0))"

section \<open>The lines of the simulation\<close>

definition endl :: string where
  "endl = [CHR 0x0A]"

fun event_text :: "event \<Rightarrow> string" where
  "event_text MsgStarted =
     [CHR 0x0A] @ ''--- Veri G'' @ [CHR 0xC3, CHR 0xB6] @ ''nderimi Ba'' @ [CHR 0xC5, CHR 0x9F]
     @ ''lad'' @ [CHR 0xC4, CHR 0xB1] @ '' (Stop&Wait) ---'' @ [CHR 0x0A, CHR 0x0A]"
| "event_text (MsgSending i) =
     ''[G'' @ [CHR 0xC3, CHR 0xB6] @ ''nderici] Frame '' @ show_nat 10 (unat i)
     @ '' g'' @ [CHR 0xC3, CHR 0xB6] @ ''nderiliyor...'' @ [CHR 0x0A]"
| "event_text MsgFrameLost =
     ''  '' @ [CHR 0xF0, CHR 0x9F, CHR 0x9A, CHR 0xAB]
     @ '' Frame kayboldu! Timeout bekleniyor...'' @ [CHR 0x0A, CHR 0x0A]"
| "event_text MsgFrameCorrupted =
     ''  '' @ [CHR 0xE2, CHR 0x9A, CHR 0xA0, CHR 0xEF, CHR 0xB8, CHR 0x8F] @ '' Frame bozuldu! Al''
     @ [CHR 0xC4, CHR 0xB1] @ ''c'' @ [CHR 0xC4, CHR 0xB1] @ '' CRC hatas'' @ [CHR 0xC4, CHR 0xB1]
     @ '' alg'' @ [CHR 0xC4, CHR 0xB1] @ ''lad'' @ [CHR 0xC4, CHR 0xB1] @ ''. NACK g''
     @ [CHR 0xC3, CHR 0xB6] @ ''nderdi.'' @ [CHR 0x0A, CHR 0x0A]"
| "event_text MsgFrameReceived =
     ''  '' @ [CHR 0xE2, CHR 0x9C, CHR 0x85] @ '' Frame ba'' @ [CHR 0xC5, CHR 0x9F] @ ''ar''
     @ [CHR 0xC4, CHR 0xB1] @ ''yla al'' @ [CHR 0xC4, CHR 0xB1] @ ''nd'' @ [CHR 0xC4, CHR 0xB1]
     @ ''.'' @ [CHR 0x0A]"
| "event_text MsgAckLost =
     ''  '' @ [CHR 0xF0, CHR 0x9F, CHR 0x9A, CHR 0xAB] @ '' ACK kayboldu. Timeout...''
     @ [CHR 0x0A, CHR 0x0A]"
| "event_text MsgAckReceived =
     ''  '' @ [CHR 0xE2, CHR 0x9C, CHR 0x85] @ '' ACK al'' @ [CHR 0xC4, CHR 0xB1] @ ''nd''
     @ [CHR 0xC4, CHR 0xB1] @ ''. Bir sonraki frame'' @ [CHR 0x27] @ ''e ge'' @ [CHR 0xC3, CHR 0xA7]
     @ ''iliyor.'' @ [CHR 0x0A, CHR 0x0A]"
| "event_text MsgChecksumSending =
     ''--- Checksum G'' @ [CHR 0xC3, CHR 0xB6] @ ''nderimi ---'' @ [CHR 0x0A]"
| "event_text MsgChecksumCorrupted =
     [CHR 0xE2, CHR 0x9A, CHR 0xA0, CHR 0xEF, CHR 0xB8, CHR 0x8F] @ '' Checksum bozuldu! Kar''
     @ [CHR 0xC5, CHR 0x9F, CHR 0xC4, CHR 0xB1] @ '' taraf b'' @ [CHR 0xC3, CHR 0xBC] @ ''t''
     @ [CHR 0xC3, CHR 0xBC] @ ''n veri setini reddetti.'' @ [CHR 0x0A]"
| "event_text (MsgChecksumDelivered checksum) =
     [CHR 0xE2, CHR 0x9C, CHR 0x85] @ '' Checksum ba'' @ [CHR 0xC5, CHR 0x9F] @ ''ar''
     @ [CHR 0xC4, CHR 0xB1] @ ''yla iletildi: 0x'' @ show_nat 16 (unat checksum) @ [CHR 0x0A]"
| "event_text MsgFinished =
     ''--- G'' @ [CHR 0xC3, CHR 0xB6] @ ''nderim Tamamland'' @ [CHR 0xC4, CHR 0xB1] @ '' ---''
     @ [CHR 0x0A]"
| "event_text (Wait ms) = []"

section \<open>Digits\<close>

lemma digit_val_char: "d < 16 \<Longrightarrow> digit_val (digit_char d) = Some d"
proof -
  assume "d < 16"
  then have "d \<in> set [0..<16]" by simp
  then show ?thesis
    unfolding digit_val_def digit_char_def by (simp add: upt_rec) (elim disjE; simp)
qed

lemma show_nat_small: "n < base \<Longrightarrow> show_nat base n = [digit_char n]"
  by (simp add: show_nat.simps)

lemma show_nat_step:
  "2 \<le> base \<Longrightarrow> base \<le> n \<Longrightarrow>
   show_nat base n = show_nat base (n div base) @ [digit_char (n mod base)]"
  by (subst show_nat.simps) simp

lemma show_nat_nonempty [simp]: "show_nat base n \<noteq> []"
  by (subst show_nat.simps) simp

lemma read_nat_snoc:
  "s \<noteq> [] \<Longrightarrow> read_nat base (s @ [c]) = read_digit base c (read_nat base s)"
  by (simp add: read_nat_def)

lemma read_nat_single: "read_nat base [c] = read_digit base c (Some 0)"
  by (simp add: read_nat_def)

lemma read_show_nat:
  assumes "2 \<le> base" and "base \<le> 16"
  shows "read_nat base (show_nat base n) = Some n"
proof (induction n rule: less_induct)
  case (less n)
  show ?case
  proof (cases "n < base")
    case True
    with assms show ?thesis
      by (simp add: show_nat_small read_nat_single read_digit_def digit_val_char)
  next
    case False
    from assms have digit: "n mod base < base" "n mod base < 16"
      by (simp_all add: less_le_trans [of "n mod base" base 16])
    from False assms have "n div base < n" by simp
    from less [OF this] assms False digit show ?thesis
      by (simp add: show_nat_step read_nat_snoc read_digit_def digit_val_char)
  qed
qed

lemma show_nat_inject:
  assumes "2 \<le> base" and "base \<le> 16"
  shows "show_nat base m = show_nat base n \<longleftrightarrow> m = n"
  by (metis assms option.inject read_show_nat)

text \<open>
  A number is read back from the text that \<^verbatim>\<open>operator<<\<close> writes for it, in
  base ten (the frame indices) and in base sixteen (the checksum), as in every
  base from two to sixteen.
\<close>

theorem number_text_roundtrip:
  assumes "2 \<le> base" and "base \<le> 16"
  shows "read_nat base (show_nat base n) = Some n"
  using assms by (rule read_show_nat)

theorem number_text_roundtrip_witness:
  "(2 :: nat) \<le> 16 \<and> (16 :: nat) \<le> 16 \<and> show_nat 16 48879 = ''BEEF''
   \<and> read_nat 16 ''BEEF'' = Some 48879"
  using number_text_roundtrip [of 16 48879]
  by (simp add: show_nat.simps digit_char_def)

section \<open>The text determines the line\<close>

lemma event_text_inject:
  assumes "event_text e = event_text e'" and "event_text e \<noteq> []"
  shows "e = e'"
  using assms
  by (cases e; cases e') (simp_all add: show_nat_inject word_unat_eq_iff)

end
