(* ===== verification/Spec2Isabelle.thy ===== *)
theory Spec2Isabelle
  imports BitFramer CrcEngine CrcContract Checksum ArqTrace ArqStream BitsetProgram Console
begin

text \<open>
  \<^bold>\<open>A verification development for the data-link-layer programs\<close>
  (\<^verbatim>\<open>src/viba.cpp\<close> and \<^verbatim>\<open>src/bitset.cpp\<close>).

  \<^bold>\<open>The program.\<close> \<^verbatim>\<open>viba.cpp\<close> reads the file \<^verbatim>\<open>UDHR.dat\<close> (\<^verbatim>\<open>readDatFile\<close>),
  turns its bytes into a bit sequence (\<^verbatim>\<open>bytesToBits\<close>), cuts the bits into frames
  of 100 bits (\<^verbatim>\<open>splitIntoFrames\<close>), stores each frame in a \<^verbatim>\<open>bitset<100>\<close>
  (\<^verbatim>\<open>toBitsets\<close>), computes a 16-bit check sequence per frame (\<^verbatim>\<open>calculateCRC\<close>,
  which calls \<^verbatim>\<open>crcDivision\<close>), folds the check sequences into one checksum
  (\<^verbatim>\<open>calculateChecksum\<close>) and replays a Stop-and-Wait exchange of the frames over
  a channel whose faults are random draws (\<^verbatim>\<open>simulateTransmission\<close>).
  \<^verbatim>\<open>bitset.cpp\<close> is the same pipeline without the simulation.

  \<^bold>\<open>The theories\<close>, in the order of the data flow. Every function of
  \<^verbatim>\<open>viba.cpp\<close> is a definition of the same name; a loop of a function is a
  definition of its own where the proofs need it.
  \<^item> \<open>DLL_Prelude\<close>: machine types (\<open>byte\<close>, \<open>uint16_t\<close>, \<open>uint32_t\<close>, \<open>size_t\<close> as words),
    the loop combinator \<open>for_each\<close>, the bits of a word most significant first
    (\<open>bits_msb\<close>, \<open>word_msb\<close>), the parity of a bit list.
  \<^item> \<open>StdBitset\<close>: the operations of \<^verbatim>\<open>std::bitset<N>\<close> that the sources use, over
    \<open>'n word\<close>. A subscript past the end is not hidden: \<open>bs_read oob b pos\<close> returns
    the parameter \<open>oob\<close> there (\<open>None\<close>: the access stops the program; \<open>Some v\<close>: it
    reads \<open>v\<close>), and \<open>bs_write\<close> returns \<open>None\<close>. Every function that subscripts a
    \<^verbatim>\<open>bitset\<close> therefore returns an \<open>option\<close> and takes \<open>oob\<close>.
  \<^item> \<open>BitFramer\<close>: \<open>bytesToBits\<close>, \<open>splitIntoFrames\<close> (with its loops \<open>split_loop\<close>
    and \<open>pad_frame\<close>), \<open>toBitsets\<close> (with \<open>toBitset\<close>, one frame), and the reference
    \<open>chunk_frames\<close>.
  \<^item> \<open>CrcEngine\<close>: \<open>crcDivision\<close>, \<open>calculateCRC\<close> (with \<open>crc_frame\<close>, the body of its
    loop over the frames), the closed form \<open>crc_value\<close> of what they compute, and the
    remainder of the polynomial division that the specification promises
    (\<open>poly_rem\<close>, \<open>spec_crc\<close>).
  \<^item> \<open>CrcContract\<close>: the remainder that the specification promises as the content
    of a 16-bit shift register (\<open>crc_shift\<close>, \<open>crc_register\<close>), its linearity, and the
    errors it detects.
  \<^item> \<open>Checksum\<close>: \<open>calculateChecksum\<close> (with \<open>add_fold\<close>, the body of its loop, and
    \<open>accumulate\<close>, the loop) on a 32-bit accumulator, and end-around-carry addition
    on natural numbers (\<open>eac_add\<close>, \<open>eac_sum\<close>) as its reference.
  \<^item> \<open>ArqSimulator\<close>: \<open>simulateTransmission\<close> (with \<open>frame_body\<close>, \<open>send_loop\<close> and
    \<open>send_checksum\<close>) as a function of a state \<open>sim\<close> that holds the loop variable,
    the state of the random generator and the lines written so far. The random
    source is an argument (\<open>source\<close>): \<open>script\<close> is a finite list of draws.
  \<^item> \<open>ArqMachine\<close>: the state machine of the specification (\<open>arq_step\<close>, \<open>arq_path\<close>,
    \<open>arq_run\<close>) and the properties of its paths.
  \<^item> \<open>ArqRefinement\<close>: the loop of the code, on a script, implements the machine,
    and what follows for the lines the code writes.
  \<^item> \<open>ArqTrace\<close>: the shape of the output as a grammar on lists of lines
    (\<open>lines_ok\<close>, \<open>trace_ok\<close>), that every output has it whatever the source of
    draws, and what follows from the shape by induction on the grammar.
  \<^item> \<open>ArqStream\<close>: the source \<open>endless\<close> over an infinite stream of draws, the
    transfer of runs between sources that yield the same values, and the runs that
    do not return.
  \<^item> \<open>Console\<close>: the text that is written: numbers as \<^verbatim>\<open>operator<<\<close> writes them in
    base ten and sixteen (\<open>show_nat\<close>), and the text of each line of the simulation
    (\<open>event_text\<close>), byte for byte from the string literals of the source.
  \<^item> \<open>BitsetProgram\<close>: the functions of \<^verbatim>\<open>bitset.cpp\<close>, each from its own lines and
    under its own name with the suffix \<open>_b\<close> (\<open>boolFramesTobitsetFrames\<close> keeps its
    name), with \<open>split_loop_b\<close>, the loop of its \<^verbatim>\<open>splitIntoFrames\<close>, as a partial
    function, since the frame size is an argument there and the loop does not end
    when it is zero.
  \<^item> this theory: \<open>readDatFile\<close> over a file system that is a map from paths to
    byte sequences, and \<open>main\<close> of each program (\<open>main\<close> for \<^verbatim>\<open>viba.cpp\<close>, \<open>main_b\<close>
    for \<^verbatim>\<open>bitset.cpp\<close>), which returns the exit code and the lines written, or the
    reason why it does not return (\<open>stop\<close>); the text of the lines of each program
    (\<open>line_text\<close>, \<open>line_text_b\<close>) and of a run (\<open>console\<close>, \<open>console_b\<close>).

  \<^bold>\<open>What is shown.\<close>
  \<^item> Framing: \<open>bytesToBits\<close> stays in range and lists the bits of each byte from the
    top bit down; \<open>splitIntoFrames\<close> is \<open>chunk_frames\<close>, yields \<open>ceil (n / 100)\<close>
    frames of exactly 100 bits whose concatenation is the input followed by fewer
    than 100 zeros; \<open>toBitsets\<close> stays in range on such frames and fails on any
    longer frame, where the position computed in \<open>size_t\<close> wraps around; the bits
    can be read back from the stored frames.
  \<^item> Check sequence: \<open>crcDivision\<close> reads position 16 of a 16-bit \<^verbatim>\<open>bitset\<close>, so
    where such a read stops the program every call fails; where the read goes
    through, the value computed for a frame is \<open>crc_value\<close>: the parity of the frame
    at bits 4 and 11 and its first bit at bit 15. It changes when one bit of the
    frame is inverted, does not change when two bits other than the first are, and
    differs from the remainder of the polynomial division. The remainder is
    linear, is the register of the bit-serial division, and changes under every
    error of one or two bits in a frame: the contract detects the errors of two
    bits that the code misses.
  \<^item> Checksum: the accumulator never exceeds 16 bits, so no addition wraps; it is
    the sum of the check sequences modulo 65535 with representative 65535 for a
    nonzero multiple; the result is the two's complement of it.
  \<^item> Simulation: on a script, \<open>simulateTransmission\<close> equals the run of the state
    machine on the draws followed by one attempt on the checksum; without faults
    \<open>2 N + 1\<close> draws are used; after any draws, \<open>2 N + 1\<close> draws without fault make
    it return; a fault on frame 0 wraps the loop variable and the loop header
    restores it. For every source of draws, an output that is produced is well
    formed (\<open>trace_ok\<close>): the announced indices are indices of frames and never
    decrease; the frames are acknowledged in order, each once; the attempts are
    the frames plus the faults; the checksum is attempted once, at the end. On a
    stream the simulation returns exactly when it returns on a
    finite prefix used as a script, and it does not return when every draw is
    below \<open>0.30\<close>.
  \<^item> Program: \<^verbatim>\<open>main\<close> returns 1 exactly on a missing or empty file, stops in
    \<^verbatim>\<open>crcDivision\<close> on every other file where out-of-range subscripts stop the
    program, and is otherwise the simulation of the stored frames.
  \<^item> Second program: every function of \<^verbatim>\<open>bitset.cpp\<close> equals the function of
    \<^verbatim>\<open>viba.cpp\<close> on the arguments that \<^verbatim>\<open>main\<close> passes; its \<^verbatim>\<open>splitIntoFrames\<close>
    returns for every positive frame size and never for the frame size zero; and
    whenever \<^verbatim>\<open>viba.cpp\<close> returns, \<^verbatim>\<open>bitset.cpp\<close> returns the same exit code and has
    written what \<^verbatim>\<open>viba.cpp\<close> writes before its simulation (\<open>programs_agree\<close>),
    with the same text except for an empty line that \<^verbatim>\<open>viba.cpp\<close> puts before the
    checksum.
  \<^item> Text: a bitset is read back from the characters written for it, a number from
    its digits, and the text of a line determines the line, so the lines of the
    model lose nothing of what is written.

  \<^bold>\<open>Bounds and draws.\<close> Lengths and loop counters that the sources keep in
  \<open>size_t\<close> and that only grow up to the length of a vector are natural numbers
  here: a vector cannot hold \<open>2 ^ 64\<close> elements, so these never wrap. Where a
  \<open>size_t\<close> can go below zero (\<open>toBitset\<close>, the loop variable of the simulation) the
  arithmetic is done in \<open>64 word\<close>, and the theorems about the simulation assume
  fewer than \<open>2 ^ 64\<close> frames. No fuel is used. A loop whose bounds are known is a
  recursive function whose termination is proved. The two loops that can run for
  ever are partial functions in the \<open>option\<close> monad, and \<open>None\<close> is the run that does
  not return: \<open>split_loop_b\<close> (\<open>LoopForever\<close> for \<open>main_b\<close>) and \<open>send_loop\<close>
  (\<open>SimulationUnfinished\<close> for \<open>main\<close>). For \<open>send_loop\<close> on a script \<open>None\<close> is the
  end of the script; \<open>stream_run_is_script_run\<close> says that the scripts account for
  every run on a stream that returns, \<open>simulation_completes\<close> and \<open>main_completes\<close>
  say which draws make a run return, and \<open>simulation_never_returns\<close> which do not.

  \<^bold>\<open>Not modelled.\<close>
  \<^item> The generator \<^verbatim>\<open>mt19937\<close>, its seed from \<^verbatim>\<open>random_device\<close> and the distribution
    \<^verbatim>\<open>uniform_real_distribution\<close>: library code that the sources only call, seeded
    from the environment. The draws are an input of the model, so every theorem
    holds for whatever the generator yields.
  \<^item> The rounding of \<^verbatim>\<open>double\<close>: a draw is a rational number and the thresholds are
    the decimal numbers of the source, where the code compares with the nearest
    \<^verbatim>\<open>double\<close>. For \<open>0.10\<close>, \<open>0.10 + 0.20\<close> and \<open>0.05\<close> the nearest \<^verbatim>\<open>double\<close> lies above
    the decimal number and no \<^verbatim>\<open>double\<close> lies between the two, so the comparison has
    the same outcome on every \<^verbatim>\<open>double\<close>. For \<open>0.15\<close> the nearest \<^verbatim>\<open>double\<close> lies below
    it: a draw equal to this one \<^verbatim>\<open>double\<close> is a lost acknowledgement in the model
    and not in the code. On every other \<^verbatim>\<open>double\<close> the model and the code agree.
  \<^item> The passing of time in \<^verbatim>\<open>wait\<close> (a delay is an event of the output that carries
    its duration), the split of the output between \<^verbatim>\<open>cout\<close> and \<^verbatim>\<open>cerr\<close> and the
    buffering of the streams.
  \<^item> The failure of memory allocation, and files that change while they are read.
  \<^item> The operations of \<^verbatim>\<open>std::bitset\<close> and \<^verbatim>\<open>std::vector\<close> that the sources do not
    call.
\<close>

section \<open>From bytes to stored frames\<close>

definition frame_words :: "bool option \<Rightarrow> byte list \<Rightarrow> 100 word list option" where
  "frame_words oob data = do {
     bits \<leftarrow> bytesToBits oob data;
     toBitsets (splitIntoFrames bits)
   }"

lemma frame_words_eq:
  "frame_words oob data = Some (map word_msb (chunk_frames (concat (map bits_msb data))))"
  by (simp add: frame_words_def bytesToBits_eq splitIntoFrames_eq toBitsets_chunk_frames)

text \<open>
  For \<open>L\<close> bytes the pipeline of \<^verbatim>\<open>main\<close> stores \<open>ceil (8 L / 100)\<close> frames, and
  no subscript on the way is out of range.
\<close>

theorem frame_words_count:
  "map_option length (frame_words oob data) = Some ((8 * length data + (FRAME_SIZE - 1)) div FRAME_SIZE)"
  by (simp add: frame_words_eq length_chunk_frames length_concat_bits_msb)

section \<open>The file\<close>

type_synonym filesystem = "string \<rightharpoonup> byte list"

datatype line =
    CannotOpen string
  | FrameCrc size_t "16 word"
  | ChecksumLine uint16_t
  | Simulation event

fun read_loop :: "byte list \<Rightarrow> byte list \<Rightarrow> byte list" where
  "read_loop [] data = data"
| "read_loop (byte # rest) data = read_loop rest (data @ [byte])"

definition readDatFile :: "filesystem \<Rightarrow> string \<Rightarrow> byte list \<times> line list" where
  "readDatFile fs filePath =
     (case fs filePath of
        None \<Rightarrow> ([], [CannotOpen filePath])
      | Some content \<Rightarrow> (read_loop content [], []))"

section \<open>main\<close>

datatype stop = SubscriptOutOfRange | SimulationUnfinished | LoopForever

definition to_hex :: "16 word list \<Rightarrow> uint16_t list option" where
  "to_hex crcResults =
     for_each crcResults (\<lambda>crc crcHex. do {
       v \<leftarrow> bs_to_ulong crc;
       Some (crcHex @ [ucast v])
     }) []"

definition show_crcs :: "16 word list \<Rightarrow> line list" where
  "show_crcs crcResults =
     map (\<lambda>i. FrameCrc (of_nat i) (crcResults ! i)) [0..<min (length crcResults) 10]"

definition prepare :: "bool option \<Rightarrow> byte list \<Rightarrow> (100 word list \<times> 16 word list \<times> uint16_t) option" where
  "prepare oob rawData = do {
     frames \<leftarrow> frame_words oob rawData;
     crcResults \<leftarrow> calculateCRC oob frames;
     crcHex \<leftarrow> to_hex crcResults;
     Some (frames, crcResults, calculateChecksum crcHex)
   }"

definition main ::
    "bool option \<Rightarrow> filesystem \<Rightarrow> 'g source \<Rightarrow> 'g \<Rightarrow> stop + int \<times> line list" where
  "main oob fs prob gen =
     (let path = ''UDHR.dat'';
          (rawData, err) = readDatFile fs path
      in if rawData = [] then Inr (1, err)
         else case prepare oob rawData of
                None \<Rightarrow> Inl SubscriptOutOfRange
              | Some (frames, crcResults, checksum) \<Rightarrow>
                  (case simulateTransmission prob frames crcResults checksum gen of
                     None \<Rightarrow> Inl SimulationUnfinished
                   | Some s \<Rightarrow>
                       Inr (0, show_crcs crcResults @ [ChecksumLine checksum]
                               @ map Simulation (out s))))"

section \<open>The second program\<close>

fun read_loop_b :: "byte list \<Rightarrow> byte list \<Rightarrow> byte list" where
  "read_loop_b [] data = data"
| "read_loop_b (byte # rest) data = read_loop_b rest (data @ [byte])"

definition readDatFile_b :: "filesystem \<Rightarrow> string \<Rightarrow> byte list \<times> line list" where
  "readDatFile_b fs filePath =
     (case fs filePath of
        None \<Rightarrow> ([], [CannotOpen filePath])
      | Some content \<Rightarrow> (read_loop_b content [], []))"

definition crcs_b :: "bool option \<Rightarrow> bool list list \<Rightarrow> 16 word list option" where
  "crcs_b oob boolFrames = do {
     bitsetFrames \<leftarrow> boolFramesTobitsetFrames boolFrames;
     calculateCRC_b oob bitsetFrames crcKey_b
   }"

definition report_b :: "16 word list \<Rightarrow> (int \<times> line list) option" where
  "report_b crcResults = do {
     let shown = map (\<lambda>i. FrameCrc (of_nat i) (crcResults ! i)) [0..<min (length crcResults) 10];
     crcResultsHex \<leftarrow> for_each crcResults (\<lambda>crc crcResultsHex. do {
       v \<leftarrow> bs_to_ulong crc;
       Some (crcResultsHex @ [ucast v])
     }) [];
     let checksum = calculateChecksum_b crcResultsHex;
     Some (0, shown @ [ChecksumLine checksum])
   }"

definition main_b :: "bool option \<Rightarrow> filesystem \<Rightarrow> stop + int \<times> line list" where
  "main_b oob fs =
     (let path = ''UDHR.dat'';
          (fileData, err) = readDatFile_b fs path
      in if fileData = [] then Inr (1, err)
         else case bytesToBits_b oob fileData of
                None \<Rightarrow> Inl SubscriptOutOfRange
              | Some allBits \<Rightarrow>
                  (case splitIntoFrames_b allBits 100 of
                     None \<Rightarrow> Inl LoopForever
                   | Some boolFrames \<Rightarrow>
                       (case Option.bind (crcs_b oob boolFrames) report_b of
                          None \<Rightarrow> Inl SubscriptOutOfRange
                        | Some result \<Rightarrow> Inr result)))"

fun is_simulation :: "line \<Rightarrow> bool" where
  "is_simulation (Simulation e) = True"
| "is_simulation l = False"

fun before_simulation :: "line list \<Rightarrow> line list" where
  "before_simulation [] = []"
| "before_simulation (Simulation e # ls) = []"
| "before_simulation (l # ls) = l # before_simulation ls"

section \<open>The program as a function of the file\<close>

definition stored_frames :: "byte list \<Rightarrow> 100 word list" where
  "stored_frames data = map word_msb (chunk_frames (concat (map bits_msb data)))"

lemma read_loop_eq: "read_loop content data = data @ content"
  by (induction content arbitrary: data) simp_all

lemma readDatFile_eq:
  "readDatFile fs filePath =
     (case fs filePath of None \<Rightarrow> ([], [CannotOpen filePath]) | Some content \<Rightarrow> (content, []))"
  by (simp add: readDatFile_def read_loop_eq split: option.splits)

lemma to_hex_from:
  "for_each crcResults (\<lambda>crc crcHex. do {
       v \<leftarrow> bs_to_ulong (crc :: 16 word);
       Some (crcHex @ [ucast v :: uint16_t])
     }) acc = Some (acc @ crcResults)"
  by (induction crcResults arbitrary: acc) (simp_all add: ucast_widen_narrow)

lemma to_hex_eq: "to_hex crcResults = Some crcResults"
  unfolding to_hex_def to_hex_from by simp

lemma length_stored_frames:
  "length (stored_frames data) = (8 * length data + (FRAME_SIZE - 1)) div FRAME_SIZE"
  by (simp add: stored_frames_def length_chunk_frames length_concat_bits_msb)

lemma stored_frames_empty: "stored_frames data = [] \<longleftrightarrow> data = []"
  using length_stored_frames [of data] by (cases data) (auto simp: FRAME_SIZE_def)

lemma prepare_unchecked:
  "prepare (Some v) data =
     Some (stored_frames data, map (crc_value v) (stored_frames data),
           calculateChecksum (map (crc_value v) (stored_frames data)))"
  by (simp add: prepare_def frame_words_eq calculateCRC_unchecked to_hex_eq stored_frames_def)

lemma prepare_checked: "data \<noteq> [] \<Longrightarrow> prepare None data = None"
  using stored_frames_empty [of data]
  by (simp add: prepare_def frame_words_eq calculateCRC_checked stored_frames_def)

lemma frames_fit:
  assumes "8 * length data < 2 ^ 64"
  shows "length (stored_frames data) < 2 ^ 64"
proof -
  have "length (stored_frames data) \<le> 8 * length data"
    unfolding length_stored_frames FRAME_SIZE_def by (cases data) simp_all
  with assms show ?thesis by simp
qed

lemma main_eq:
  assumes "fs ''UDHR.dat'' = Some data" and "data \<noteq> []"
  shows "main (Some v) fs prob gen =
     (let frames = stored_frames data;
          crcs = map (crc_value v) frames;
          checksum = calculateChecksum crcs
      in case simulateTransmission prob frames crcs checksum gen of
           None \<Rightarrow> Inl SimulationUnfinished
         | Some s \<Rightarrow>
             Inr (0, show_crcs crcs @ [ChecksumLine checksum] @ map Simulation (out s)))"
  using assms by (simp add: main_def readDatFile_eq prepare_unchecked Let_def)

section \<open>Properties of the program\<close>

text \<open>
  C19: \<^verbatim>\<open>main\<close> returns \<open>1\<close> exactly when the file \<^verbatim>\<open>UDHR.dat\<close> is missing or
  empty, and then nothing has been computed and no draw has been made.
\<close>

theorem main_exit_1:
  "(\<exists>ls. main oob fs prob gen = Inr (1, ls)) \<longleftrightarrow> fs ''UDHR.dat'' \<in> {None, Some []}"
  by (cases "fs ''UDHR.dat''")
    (auto simp: main_def readDatFile_eq Let_def split: option.splits)

text \<open>
  C18: where an out-of-range subscript stops the program, \<^verbatim>\<open>main\<close> stops on every
  file that is not empty, in the first call of \<^verbatim>\<open>crcDivision\<close>: no check sequence
  and no line of the simulation is produced.
\<close>

theorem main_traps:
  assumes "fs ''UDHR.dat'' = Some data" and "data \<noteq> []"
  shows "main None fs prob gen = Inl SubscriptOutOfRange"
  using assms by (simp add: main_def readDatFile_eq prepare_checked)

theorem main_traps_witness:
  "[''UDHR.dat'' \<mapsto> [0x41 :: byte]] ''UDHR.dat'' = Some [0x41] \<and> [0x41 :: byte] \<noteq> []
   \<and> main None [''UDHR.dat'' \<mapsto> [0x41]] script [] = Inl SubscriptOutOfRange"
  using main_traps [of "[''UDHR.dat'' \<mapsto> [0x41]]" "[0x41]" script "[]"]
  by simp

text \<open>
  C17: where the out-of-range read goes through and sees \<open>v\<close>, \<^verbatim>\<open>main\<close> on a file
  that is not empty is the simulation of the stored frames with their check
  sequences and their checksum; it shows at most ten check sequences, then the
  checksum, then the lines of the simulation, and returns \<open>0\<close>.
\<close>

theorem main_is_pipeline:
  assumes "fs ''UDHR.dat'' = Some data" and "data \<noteq> []"
  shows "main (Some v) fs prob gen =
     (case simulateTransmission prob (stored_frames data) (map (crc_value v) (stored_frames data))
             (calculateChecksum (map (crc_value v) (stored_frames data))) gen of
        None \<Rightarrow> Inl SimulationUnfinished
      | Some s \<Rightarrow>
          Inr (0, show_crcs (map (crc_value v) (stored_frames data))
                  @ [ChecksumLine (calculateChecksum (map (crc_value v) (stored_frames data)))]
                  @ map Simulation (out s)))"
  using assms by (simp add: main_eq Let_def)

theorem main_is_pipeline_witness:
  "[''UDHR.dat'' \<mapsto> [0x80 :: byte]] ''UDHR.dat'' = Some [0x80] \<and> [0x80 :: byte] \<noteq> []
   \<and> main (Some False) [''UDHR.dat'' \<mapsto> [0x80]] script [] = Inl SimulationUnfinished"
  using main_is_pipeline [of "[''UDHR.dat'' \<mapsto> [0x80]]" "[0x80]" False script "[]"]
    length_stored_frames [of "[0x80]"]
  by (simp add: simulate_run frames_fit FRAME_SIZE_def)

text \<open>
  C37: \<^verbatim>\<open>main\<close> returns \<open>0\<close> on every file that is not empty as soon as the channel
  stops failing: on a stream in which \<open>2 N + 1\<close> draws in a row are not below \<open>0.30\<close>,
  whatever comes before and after them, \<open>N\<close> being the number of frames.
\<close>

theorem main_completes:
  assumes "fs ''UDHR.dat'' = Some data" and "data \<noteq> []" and "8 * length data < 2 ^ 64"
    and "3 / 10 \<le> c"
  shows "\<exists>ls. main (Some v) fs endless
                  (ds @- replicate (2 * length (stored_frames data) + 1) c @- g) = Inr (0, ls)"
proof -
  from frames_fit [OF assms(3)] assms(4)
  obtain t where "simulateTransmission endless (stored_frames data)
      (map (crc_value v) (stored_frames data))
      (calculateChecksum (map (crc_value v) (stored_frames data)))
      (ds @- replicate (2 * length (stored_frames data) + 1) c @- g) = Some t"
    using simulate_stream_completes by blast
  with assms(1,2) show ?thesis by (simp add: main_eq Let_def)
qed

theorem main_completes_witness:
  "[''UDHR.dat'' \<mapsto> [0x80 :: byte]] ''UDHR.dat'' = Some [0x80] \<and> [0x80 :: byte] \<noteq> []
   \<and> 8 * length [0x80 :: byte] < (2 :: nat) ^ 64 \<and> (3 / 10 :: rat) \<le> 1
   \<and> (\<exists>ls. main (Some False) [''UDHR.dat'' \<mapsto> [0x80]] endless
          ([0, 1 / 10] @- replicate (2 * length (stored_frames [0x80]) + 1) 1 @- sconst 0)
        = Inr (0, ls))"
  using main_completes [of "[''UDHR.dat'' \<mapsto> [0x80]]" "[0x80]" 1 False "[0, 1 / 10]" "sconst 0"]
  by simp

text \<open>
  \<^verbatim>\<open>main\<close> does not return when the channel never stops failing: on a file that
  is not empty and a stream whose draws are all below \<open>0.30\<close>, the first frame is
  sent again for ever.
\<close>

theorem main_runs_forever:
  assumes "fs ''UDHR.dat'' = Some data" and "data \<noteq> []" and "8 * length data < 2 ^ 64"
    and "\<forall>r \<in> sset g. r < 3 / 10"
  shows "main (Some v) fs endless g = Inl SimulationUnfinished"
proof -
  from assms(2) have "stored_frames data \<noteq> []" by (simp add: stored_frames_empty)
  from simulate_stuck [OF this frames_fit [OF assms(3)] assms(4)] assms(1,2) show ?thesis
    by (simp add: main_eq Let_def)
qed

theorem main_runs_forever_witness:
  "[''UDHR.dat'' \<mapsto> [0x80 :: byte]] ''UDHR.dat'' = Some [0x80] \<and> [0x80 :: byte] \<noteq> []
   \<and> 8 * length [0x80 :: byte] < (2 :: nat) ^ 64
   \<and> main (Some False) [''UDHR.dat'' \<mapsto> [0x80]] endless (sconst (1 / 5)) = Inl SimulationUnfinished"
  using main_runs_forever [of "[''UDHR.dat'' \<mapsto> [0x80]]" "[0x80]" "sconst (1 / 5)" False]
  by simp

text \<open>\<^verbatim>\<open>main\<close> shows the check sequences of the first ten frames, in order.\<close>

theorem show_crcs_first_ten:
  "show_crcs crcs = map (\<lambda>(i, crc). FrameCrc (of_nat i) crc) (zip [0..<10] crcs)"
  by (rule nth_equalityI) (auto simp: show_crcs_def)

section \<open>The two programs\<close>

lemma read_loop_b_eq: "read_loop_b content data = data @ content"
  by (induction content arbitrary: data) simp_all

lemma readDatFile_b_eq: "readDatFile_b = readDatFile"
  by (simp add: fun_eq_iff readDatFile_b_def readDatFile_def read_loop_b_eq read_loop_eq
      split: option.splits)

lemma report_b_eq:
  "report_b crcs = Some (0, show_crcs crcs @ [ChecksumLine (calculateChecksum crcs)])"
  by (simp add: report_b_def to_hex_def [symmetric] to_hex_eq show_crcs_def calculateChecksum_b_eq
      del: bs_to_ulong_small)

lemma before_simulation_prefix:
  "list_all (\<lambda>l. \<not> is_simulation l) ls \<Longrightarrow> before_simulation (ls @ map Simulation es) = ls"
proof (induction ls)
  case Nil
  show ?case by (cases es) simp_all
next
  case (Cons l ls)
  then show ?case by (cases l) simp_all
qed

lemma show_crcs_quiet: "list_all (\<lambda>l. \<not> is_simulation l) (show_crcs crcs @ [ChecksumLine c])"
  by (simp add: show_crcs_def list_all_iff)

lemma before_simulation_append:
  "before_simulation (show_crcs crcs @ ChecksumLine c # map Simulation es)
     = show_crcs crcs @ [ChecksumLine c]"
  using before_simulation_prefix [OF show_crcs_quiet, of crcs c es] by simp

lemma main_b_eq:
  assumes "fs ''UDHR.dat'' = Some data" and "data \<noteq> []"
  shows "main_b oob fs =
     (case prepare oob data of
        None \<Rightarrow> Inl SubscriptOutOfRange
      | Some (frames, crcs, checksum) \<Rightarrow> Inr (0, show_crcs crcs @ [ChecksumLine checksum]))"
proof (cases oob)
  case None
  with assms stored_frames_empty [of data] show ?thesis
    by (simp add: main_b_def readDatFile_b_eq readDatFile_eq bytesToBits_b_eq bytesToBits_eq
        splitIntoFrames_b_eq chunks_frame_size [unfolded FRAME_SIZE_def] crcs_b_def
        boolFramesTobitsetFrames_eq toBitsets_chunk_frames calculateCRC_b_eq calculateCRC_checked
        prepare_checked stored_frames_def)
next
  case (Some v)
  with assms show ?thesis
    by (simp add: main_b_def readDatFile_b_eq readDatFile_eq bytesToBits_b_eq bytesToBits_eq
        splitIntoFrames_b_eq chunks_frame_size [unfolded FRAME_SIZE_def] crcs_b_def
        boolFramesTobitsetFrames_eq toBitsets_chunk_frames calculateCRC_b_eq calculateCRC_unchecked
        prepare_unchecked report_b_eq stored_frames_def)
qed

text \<open>How \<^verbatim>\<open>main\<close> of \<^verbatim>\<open>viba.cpp\<close> can return, and what \<^verbatim>\<open>bitset.cpp\<close> does then.\<close>

lemma main_returns_cases:
  assumes "main oob fs prob gen = Inr (code, ls)"
  obtains (no_data) "code = 1" "ls = [] \<or> ls = [CannotOpen ''UDHR.dat'']"
      "main_b oob fs = Inr (1, ls)"
    | (report) crcs checksum es where "code = 0"
      "ls = show_crcs crcs @ ChecksumLine checksum # map Simulation es"
      "main_b oob fs = Inr (0, show_crcs crcs @ [ChecksumLine checksum])"
proof (cases "fs ''UDHR.dat''")
  case None
  with assms no_data show ?thesis
    by (auto simp: main_def main_b_def readDatFile_b_eq readDatFile_eq)
next
  case (Some data)
  show ?thesis
  proof (cases "data = []")
    case True
    with Some assms no_data show ?thesis
      by (auto simp: main_def main_b_def readDatFile_b_eq readDatFile_eq)
  next
    case False
    with Some assms obtain frames crcs checksum es where
      "prepare oob data = Some (frames, crcs, checksum)"
      "ls = show_crcs crcs @ ChecksumLine checksum # map Simulation es" "code = 0"
      by (fastforce simp: main_def readDatFile_eq split: option.splits)
    with Some False report show ?thesis
      by (simp add: main_b_eq)
  qed
qed

text \<open>
  C16: the two programs agree. Whenever \<^verbatim>\<open>main\<close> of \<^verbatim>\<open>viba.cpp\<close> returns, \<^verbatim>\<open>main\<close> of
  \<^verbatim>\<open>bitset.cpp\<close> returns the same exit code on the same file, and has written what
  \<^verbatim>\<open>viba.cpp\<close> writes before the simulation starts: the same check sequences and
  the same checksum.
\<close>

theorem programs_agree:
  assumes "main oob fs prob gen = Inr (code, ls)"
  shows "main_b oob fs = Inr (code, before_simulation ls)"
  using assms by (cases rule: main_returns_cases) (auto simp: before_simulation_append)

theorem programs_agree_witness:
  "main (Some False) Map.empty script [] = Inr (1, [CannotOpen ''UDHR.dat''])
   \<and> main_b (Some False) Map.empty = Inr (1, before_simulation [CannotOpen ''UDHR.dat''])"
  using programs_agree [of "Some False" Map.empty script "[]" 1 "[CannotOpen ''UDHR.dat'']"]
  by (simp add: main_def readDatFile_eq)

section \<open>The text on the console\<close>

text \<open>
  The text of each line of \<^verbatim>\<open>viba.cpp\<close> (\<open>line_text\<close>) and of \<^verbatim>\<open>bitset.cpp\<close>
  (\<open>line_text_b\<close>, which writes no line of a simulation), and the text of a whole
  run (\<open>console\<close>, \<open>console_b\<close>). The message of \<^verbatim>\<open>readDatFile\<close> goes to \<^verbatim>\<open>cerr\<close>,
  everything else to \<^verbatim>\<open>cout\<close>; the model keeps one sequence of lines.
\<close>

fun line_text :: "line \<Rightarrow> string" where
  "line_text (CannotOpen filePath) =
     ''Dosya a'' @ [CHR 0xC3, CHR 0xA7, CHR 0xC4, CHR 0xB1] @ ''lamad'' @ [CHR 0xC4, CHR 0xB1] @ '': ''
     @ filePath @ endl"
| "line_text (FrameCrc i crc) =
     ''Frame '' @ show_nat 10 (unat i) @ '' CRC: '' @ bs_to_string crc @ endl"
| "line_text (ChecksumLine checksum) =
     [CHR 0x0A] @ ''Checksum (2'' @ [CHR 0x27] @ ''s complement): 0x''
     @ show_nat 16 (unat checksum) @ endl"
| "line_text (Simulation e) = event_text e"

fun line_text_b :: "line \<Rightarrow> string" where
  "line_text_b (CannotOpen filePath) =
     ''Dosya a'' @ [CHR 0xC3, CHR 0xA7, CHR 0xC4, CHR 0xB1] @ ''lamad'' @ [CHR 0xC4, CHR 0xB1] @ '': ''
     @ filePath @ endl"
| "line_text_b (FrameCrc i crc) =
     ''Frame '' @ show_nat 10 (unat i) @ '' CRC: '' @ bs_to_string crc @ endl"
| "line_text_b (ChecksumLine checksum) =
     ''Checksum (2'' @ [CHR 0x27] @ ''s complement): 0x'' @ show_nat 16 (unat checksum) @ endl"
| "line_text_b (Simulation e) = []"

definition console :: "line list \<Rightarrow> string" where
  "console ls = concat (map line_text ls)"

definition console_b :: "line list \<Rightarrow> string" where
  "console_b ls = concat (map line_text_b ls)"

lemma frame_crc_text_inject:
  assumes "show_nat 10 m @ '' CRC: '' @ bs_to_string (c :: 16 word) @ endl
         = show_nat 10 n @ '' CRC: '' @ bs_to_string (d :: 16 word) @ endl"
  shows "m = n \<and> c = d"
proof -
  have "length ('' CRC: '' @ bs_to_string c @ endl) = length ('' CRC: '' @ bs_to_string d @ endl)"
    by simp
  from append_eq_append_conv [THEN iffD1, OF disjI2, OF this assms]
  show ?thesis by (simp add: show_nat_inject)
qed

lemma line_text_not_event:
  "line_text (CannotOpen filePath) \<noteq> event_text e"
  "line_text (FrameCrc k crc) \<noteq> event_text e"
  "line_text (ChecksumLine checksum) \<noteq> event_text e"
  by (cases e; simp)+

lemmas event_not_line_text = line_text_not_event [THEN not_sym]

lemma line_text_inject:
  assumes "line_text l = line_text l'" and "line_text l \<noteq> []"
  shows "l = l'"
proof (cases l)
  case (CannotOpen filePath)
  with assms show ?thesis
    by (cases l') (simp_all add: line_text_not_event del: line_text.simps(1), simp_all)
next
  case (FrameCrc i crc)
  with assms show ?thesis
    by (cases l') (simp_all add: line_text_not_event del: line_text.simps(2),
      auto simp: show_nat_inject word_unat_eq_iff dest!: frame_crc_text_inject)
next
  case (ChecksumLine checksum)
  with assms show ?thesis
    by (cases l') (simp_all add: line_text_not_event del: line_text.simps(3),
      simp_all add: show_nat_inject word_unat_eq_iff)
next
  case (Simulation e)
  with assms show ?thesis
    by (cases l') (auto simp: event_not_line_text simp del: line_text.simps(1,2,3)
      dest: event_text_inject [OF sym])
qed

text \<open>
  C39: the text of a line determines the line: two lines of \<^verbatim>\<open>viba.cpp\<close> with the
  same text, which is not empty (a delay writes nothing), are the same line, with
  the same frame index, check sequence, checksum or path. Nothing that the model
  keeps of a line is lost in what the program writes.
\<close>

theorem text_determines_line:
  assumes "line_text l = line_text l'" and "line_text l \<noteq> []"
  shows "l = l'"
  using assms by (rule line_text_inject)

theorem text_determines_line_witness:
  "line_text (FrameCrc 3 0x0810) = line_text (FrameCrc (1 + 2) (0x0800 + 0x0010))
   \<and> line_text (FrameCrc 3 0x0810) = ''Frame 3 CRC: 0000100000010000'' @ endl
   \<and> FrameCrc 3 0x0810 = FrameCrc (1 + 2) (0x0800 + 0x0010)"
  using text_determines_line [of "FrameCrc 3 0x0810" "FrameCrc (1 + 2) (0x0800 + 0x0010)"]
  by (simp add: show_nat.simps digit_char_def bs_to_string_def bits_msb_def upt_rec)

lemma line_text_b_eq:
  "line_text_b (CannotOpen filePath) = line_text (CannotOpen filePath)"
  "line_text_b (FrameCrc i crc) = line_text (FrameCrc i crc)"
  "line_text (ChecksumLine checksum) = CHR 0x0A # line_text_b (ChecksumLine checksum)"
  by simp_all

lemma console_b_show_crcs: "console_b (show_crcs crcs) = console (show_crcs crcs)"
  by (simp add: console_def console_b_def show_crcs_def comp_def)

text \<open>
  C38: the two programs write the same text. Whenever \<^verbatim>\<open>main\<close> of \<^verbatim>\<open>viba.cpp\<close>
  returns, \<^verbatim>\<open>bitset.cpp\<close> returns the same exit code, and its text is the text that
  \<^verbatim>\<open>viba.cpp\<close> writes before the simulation, except that \<^verbatim>\<open>viba.cpp\<close> starts the
  line of the checksum with an empty line.
\<close>

theorem programs_write_same_text:
  assumes "main oob fs prob gen = Inr (code, ls)"
  shows "\<exists>ls_b. main_b oob fs = Inr (code, ls_b) \<and>
     (if code = 1 then console ls = console_b ls_b
      else \<exists>crcs checksum. ls_b = show_crcs crcs @ [ChecksumLine checksum] \<and>
        console (before_simulation ls)
          = console_b (show_crcs crcs) @ CHR 0x0A # line_text_b (ChecksumLine checksum))"
  using assms
proof (cases rule: main_returns_cases)
  case no_data
  then show ?thesis by (auto simp: console_def console_b_def)
next
  case (report crcs checksum es)
  have "console (show_crcs crcs @ [ChecksumLine checksum])
      = console_b (show_crcs crcs) @ CHR 0x0A # line_text_b (ChecksumLine checksum)"
    by (simp add: console_b_show_crcs) (simp add: console_def)
  with report show ?thesis by (auto simp: before_simulation_append)
qed

theorem programs_write_same_text_witness:
  "main (Some False) Map.empty script [] = Inr (1, [CannotOpen ''UDHR.dat''])
   \<and> main_b (Some False) Map.empty = Inr (1, [CannotOpen ''UDHR.dat''])
   \<and> console [CannotOpen ''UDHR.dat''] = console_b [CannotOpen ''UDHR.dat'']"
  using programs_write_same_text [of "Some False" Map.empty script "[]" 1 "[CannotOpen ''UDHR.dat'']"]
  by (simp add: main_def main_b_def readDatFile_eq readDatFile_b_eq console_def console_b_def)

end
